theory Spec2Isabelle
  imports Complex_Main
begin

section \<open>JavaScript values and numbers\<close>

text \<open>
  The rate limiter computes with JavaScript numbers. A number is modelled as NaN, one of
  the two infinities, or a finite value, a rational. There is one zero, and it behaves as
  +0. The operations of this section compute on finite values exactly, which is what the
  program does as long as its numbers are whole and of moderate size; the section on double
  arithmetic gives the operations with the rounding and the overflow of IEEE doubles, and
  the program over them.
\<close>

datatype jsnum = NaN | PInf | NInf | Fin rat

text \<open>
  The values a configuration field can hold when it arrives: what a header lookup, a JWT
  claim or a field of a parsed JSON text yields. An array or plain object is given by the
  string its \<^verbatim>\<open>toString\<close> yields, which is what the conversion to a number looks at.
\<close>

datatype jsval =
    JUndefined
  | JNull
  | JBool bool
  | JNum jsnum
  | JStr string
  | JObj string

fun jneg :: "jsnum \<Rightarrow> jsnum" where
  "jneg NaN = NaN"
| "jneg PInf = NInf"
| "jneg NInf = PInf"
| "jneg (Fin a) = Fin (- a)"

fun jadd :: "jsnum \<Rightarrow> jsnum \<Rightarrow> jsnum" where
  "jadd NaN _ = NaN"
| "jadd _ NaN = NaN"
| "jadd PInf NInf = NaN"
| "jadd NInf PInf = NaN"
| "jadd PInf _ = PInf"
| "jadd _ PInf = PInf"
| "jadd NInf _ = NInf"
| "jadd _ NInf = NInf"
| "jadd (Fin a) (Fin b) = Fin (a + b)"

definition jsub :: "jsnum \<Rightarrow> jsnum \<Rightarrow> jsnum" where
  "jsub a b = jadd a (jneg b)"

fun jmul :: "jsnum \<Rightarrow> jsnum \<Rightarrow> jsnum" where
  "jmul NaN _ = NaN"
| "jmul _ NaN = NaN"
| "jmul PInf PInf = PInf"
| "jmul PInf NInf = NInf"
| "jmul NInf PInf = NInf"
| "jmul NInf NInf = PInf"
| "jmul PInf (Fin b) = (if b = 0 then NaN else if 0 < b then PInf else NInf)"
| "jmul NInf (Fin b) = (if b = 0 then NaN else if 0 < b then NInf else PInf)"
| "jmul (Fin a) PInf = (if a = 0 then NaN else if 0 < a then PInf else NInf)"
| "jmul (Fin a) NInf = (if a = 0 then NaN else if 0 < a then NInf else PInf)"
| "jmul (Fin a) (Fin b) = Fin (a * b)"

fun jdiv :: "jsnum \<Rightarrow> jsnum \<Rightarrow> jsnum" where
  "jdiv NaN _ = NaN"
| "jdiv _ NaN = NaN"
| "jdiv PInf PInf = NaN"
| "jdiv PInf NInf = NaN"
| "jdiv NInf PInf = NaN"
| "jdiv NInf NInf = NaN"
| "jdiv PInf (Fin b) = (if 0 \<le> b then PInf else NInf)"
| "jdiv NInf (Fin b) = (if 0 \<le> b then NInf else PInf)"
| "jdiv (Fin a) PInf = Fin 0"
| "jdiv (Fin a) NInf = Fin 0"
| "jdiv (Fin a) (Fin b) =
     (if b = 0 then (if a = 0 then NaN else if 0 < a then PInf else NInf)
      else Fin (a / b))"

text \<open>\<^verbatim>\<open>Math.floor\<close> and \<^verbatim>\<open>Math.trunc\<close>.\<close>

fun jfloor :: "jsnum \<Rightarrow> jsnum" where
  "jfloor (Fin a) = Fin (of_int \<lfloor>a\<rfloor>)"
| "jfloor x = x"

fun jtrunc :: "jsnum \<Rightarrow> jsnum" where
  "jtrunc (Fin a) = Fin (of_int (if 0 \<le> a then \<lfloor>a\<rfloor> else \<lceil>a\<rceil>))"
| "jtrunc x = x"

text \<open>The comparisons \<^verbatim>\<open><\<close> and \<^verbatim>\<open><=\<close>: false as soon as one side is NaN.\<close>

fun jlt :: "jsnum \<Rightarrow> jsnum \<Rightarrow> bool" where
  "jlt NaN _ = False"
| "jlt _ NaN = False"
| "jlt PInf _ = False"
| "jlt _ NInf = False"
| "jlt NInf _ = True"
| "jlt _ PInf = True"
| "jlt (Fin a) (Fin b) = (a < b)"

fun jle :: "jsnum \<Rightarrow> jsnum \<Rightarrow> bool" where
  "jle NaN _ = False"
| "jle _ NaN = False"
| "jle NInf _ = True"
| "jle _ PInf = True"
| "jle PInf _ = False"
| "jle _ NInf = False"
| "jle (Fin a) (Fin b) = (a \<le> b)"

text \<open>\<^verbatim>\<open>Math.min\<close> of two numbers: NaN as soon as one argument is NaN.\<close>

definition jmin :: "jsnum \<Rightarrow> jsnum \<Rightarrow> jsnum" where
  "jmin a b = (if a = NaN \<or> b = NaN then NaN else if jle a b then a else b)"

text \<open>
  \<^verbatim>\<open>Number(v)\<close>. How a string converts is the language's StringToNumber, which is not
  part of the program: it is the parameter \<open>S\<close>.
\<close>

fun Number :: "(string \<Rightarrow> jsnum) \<Rightarrow> jsval \<Rightarrow> jsnum" where
  "Number S JUndefined = NaN"
| "Number S JNull = Fin 0"
| "Number S (JBool b) = (if b then Fin 1 else Fin 0)"
| "Number S (JNum n) = n"
| "Number S (JStr s) = S s"
| "Number S (JObj s) = S s"

text \<open>\<^verbatim>\<open>n || null\<close> for a number \<open>n\<close>: zero and NaN are the falsy numbers.\<close>

definition or_null :: "jsnum \<Rightarrow> jsnum option" where
  "or_null n = (if n = NaN \<or> n = Fin 0 then None else Some n)"

text \<open>A default parameter value replaces an argument that is \<^verbatim>\<open>undefined\<close>, and only that.\<close>

definition default_arg :: "jsval \<Rightarrow> jsval \<Rightarrow> jsval" where
  "default_arg d v = (if v = JUndefined then d else v)"

text \<open>
  One instance of the string conversion, for evaluating examples: the empty string is 0, an
  optionally signed run of decimal digits is its value, and every other string is NaN.
  StringToNumber agrees with it on the strings used below.
\<close>

fun digits_value :: "nat \<Rightarrow> string \<Rightarrow> nat option" where
  "digits_value acc [] = Some acc"
| "digits_value acc (c # cs) =
     (let d = (of_char c :: nat) in
      if 48 \<le> d \<and> d \<le> 57 then digits_value (10 * acc + (d - 48)) cs
      else None)"

definition unsigned_digits :: "string \<Rightarrow> rat option" where
  "unsigned_digits s =
     (if s = [] then None else map_option of_nat (digits_value 0 s))"

definition StringToNumber_digits :: "string \<Rightarrow> jsnum" where
  "StringToNumber_digits s =
     (case s of
        [] \<Rightarrow> Fin 0
      | c # cs \<Rightarrow>
          (if c = CHR ''-'' then
             (case unsigned_digits cs of None \<Rightarrow> NaN | Some v \<Rightarrow> Fin (- v))
           else if c = CHR ''+'' then
             (case unsigned_digits cs of None \<Rightarrow> NaN | Some v \<Rightarrow> Fin v)
           else
             (case unsigned_digits s of None \<Rightarrow> NaN | Some v \<Rightarrow> Fin v)))"

section \<open>Configuration\<close>

text \<open>\<^verbatim>\<open>enum Behavior { Blocking, Throttling }\<close>: the numbers 0 and 1.\<close>

definition Blocking :: jsval where
  "Blocking = JNum (Fin 0)"

definition Throttling :: jsval where
  "Throttling = JNum (Fin 1)"

definition DEFAULT_BEHAVIOR :: jsval where
  "DEFAULT_BEHAVIOR = Blocking"

text \<open>
  \<open>requests\<close> and \<open>per_seconds\<close> are \<^verbatim>\<open>number | null\<close>, with \<open>None\<close> for null. The
  \<open>behavior\<close> field holds whatever value the constructor was given: its declared type is
  the enum, and nothing checks it at run time.
\<close>

record Configuration =
  requests :: "jsnum option"
  per_seconds :: "jsnum option"
  behavior :: jsval

definition Configuration_new ::
  "(string \<Rightarrow> jsnum) \<Rightarrow> jsval \<Rightarrow> jsval \<Rightarrow> jsval \<Rightarrow> Configuration" where
  "Configuration_new S requests_arg per_seconds_arg behavior_arg =
     \<lparr> requests = or_null (Number S (default_arg JNull requests_arg)),
       per_seconds = or_null (Number S (default_arg JNull per_seconds_arg)),
       behavior = default_arg DEFAULT_BEHAVIOR behavior_arg \<rparr>"

section \<open>Bucket\<close>

record Bucket =
  max_size :: jsnum
  tokens :: jsnum
  active :: bool

text \<open>\<^verbatim>\<open>new Bucket()\<close>: capacity 0, tokens defaulting to the capacity, not active.\<close>

definition Bucket_new :: Bucket where
  "Bucket_new = \<lparr> max_size = Fin 0, tokens = Fin 0, active = False \<rparr>"

definition is_active :: "Bucket \<Rightarrow> bool" where
  "is_active b = active b"

definition set_size :: "jsnum \<Rightarrow> Bucket \<Rightarrow> Bucket" where
  "set_size sz b = b\<lparr> max_size := sz \<rparr>"

text \<open>\<^verbatim>\<open>take(pre)\<close> returns its verdict and the bucket as it leaves it.\<close>

definition take_token :: "bool \<Rightarrow> Bucket \<Rightarrow> bool \<times> Bucket" where
  "take_token pre b =
     (let b1 = b\<lparr> active := True \<rparr> in
      if jle (tokens b1) (Fin 0) then (False, b1)
      else if \<not> pre then (True, b1\<lparr> tokens := jsub (tokens b1) (Fin 1) \<rparr>)
      else (True, b1))"

definition fill :: "jsnum \<Rightarrow> Bucket \<Rightarrow> Bucket" where
  "fill num b =
     b\<lparr> tokens := jadd (tokens b) (jmin (jsub (max_size b) (tokens b)) num) \<rparr>"

section \<open>Counter\<close>

text \<open>The durable storage of one object: the entries under the keys "last" and "tokens".\<close>

record Storage =
  stored_last :: "jsnum option"
  stored_tokens :: "Bucket option"

definition empty_storage :: Storage where
  "empty_storage = \<lparr> stored_last = None, stored_tokens = None \<rparr>"

record Counter =
  storage :: Storage
  last_ms :: jsnum
  bucket :: Bucket

record Response =
  body :: string
  status :: nat

text \<open>
  The constructor loads both entries. \<^verbatim>\<open>get("last") || 0\<close> is 0 for a missing entry and
  for a stored falsy number.
\<close>

definition Counter_new :: "Storage \<Rightarrow> Counter" where
  "Counter_new st =
     \<lparr> storage = st,
       last_ms = (case stored_last st of
                    None \<Rightarrow> Fin 0
                  | Some l \<Rightarrow> (case or_null l of None \<Rightarrow> Fin 0 | Some l' \<Rightarrow> l')),
       bucket = (case stored_tokens st of
                   None \<Rightarrow> Bucket_new
                 | Some b \<Rightarrow> \<lparr> max_size = max_size b, tokens = tokens b, active = active b \<rparr>) \<rparr>"

text \<open>\<open>now\<close> is the reading \<^verbatim>\<open>new Date().getTime()\<close> of the clock.\<close>

definition current_time :: "jsnum \<Rightarrow> jsnum" where
  "current_time now = jtrunc now"

definition fill_amount :: "jsnum \<Rightarrow> jsnum option \<Rightarrow> jsnum \<Rightarrow> Counter \<Rightarrow> jsnum" where
  "fill_amount toks seconds time c =
     (case seconds of
        None \<Rightarrow> Fin 0
      | Some secs \<Rightarrow>
          (let tpsf = jdiv toks secs;
               passed = jfloor (jdiv (jsub time (last_ms c)) (Fin 1000))
           in jfloor (jmul tpsf passed)))"

text \<open>\<open>should_block\<close> peeks into the bucket, which marks it active: it returns the counter too.\<close>

definition should_block :: "jsnum \<Rightarrow> Configuration \<Rightarrow> Counter \<Rightarrow> bool \<times> Counter" where
  "should_block time cfg c =
     (if behavior cfg \<noteq> Blocking then (False, c)
      else case per_seconds cfg of
        None \<Rightarrow> (False, c)
      | Some secs \<Rightarrow>
          (let (got, b) = take_token True (bucket c);
               c1 = c\<lparr> bucket := b \<rparr>
           in if got then (False, c1)
              else (jlt (jfloor (jdiv (jsub time (last_ms c1)) (Fin 1000))) secs, c1)))"

definition persist :: "Counter \<Rightarrow> Counter" where
  "persist c =
     c\<lparr> storage := \<lparr> stored_last = Some (last_ms c), stored_tokens = Some (bucket c) \<rparr> \<rparr>"

definition respond :: "bool \<Rightarrow> jsnum \<Rightarrow> Counter \<Rightarrow> Response \<times> Counter" where
  "respond success time c =
     (let st = (if success then 200 else 429);
          c1 = (if success then c\<lparr> last_ms := time \<rparr> else c)
      in (\<lparr> body = [], status = st \<rparr>, persist c1))"

text \<open>The body of \<open>fetch\<close> from the point where time and configuration are known.\<close>

definition fetch_with :: "jsnum \<Rightarrow> Configuration \<Rightarrow> Counter \<Rightarrow> Response \<times> Counter" where
  "fetch_with time cfg c =
     (case requests cfg of
        None \<Rightarrow> respond True time c
      | Some reqs \<Rightarrow>
          (let c1 = c\<lparr> bucket := set_size reqs (bucket c) \<rparr>;
               amount = (if \<not> is_active (bucket c1) then reqs
                         else fill_amount reqs (per_seconds cfg) time c1);
               (blocked, c2) = should_block time cfg c1;
               c3 = (if \<not> blocked then c2\<lparr> bucket := fill amount (bucket c2) \<rparr> else c2);
               (got, b) = take_token False (bucket c3)
           in respond got time (c3\<lparr> bucket := b \<rparr>)))"

text \<open>
  The \<^verbatim>\<open>_configuration\<close> header of a request: missing (or empty), a text that is not JSON,
  the JSON text \<^verbatim>\<open>null\<close>, or any other JSON text, given by the values of its three fields
  (\<open>JUndefined\<close> for a field that is not there).
\<close>

datatype header =
    HAbsent
  | HInvalid
  | HNull
  | HFields jsval jsval jsval

datatype error = SyntaxError | TypeError

definition configuration :: "(string \<Rightarrow> jsnum) \<Rightarrow> header \<Rightarrow> error + Configuration" where
  "configuration S h =
     (case h of
        HAbsent \<Rightarrow> Inr (Configuration_new S JUndefined JUndefined JUndefined)
      | HInvalid \<Rightarrow> Inl SyntaxError
      | HNull \<Rightarrow> Inl TypeError
      | HFields r p b \<Rightarrow> Inr (Configuration_new S r p b))"

definition fetch ::
  "(string \<Rightarrow> jsnum) \<Rightarrow> jsnum \<Rightarrow> header \<Rightarrow> Counter \<Rightarrow> error + Response \<times> Counter" where
  "fetch S now h c =
     (let time = current_time now in
      case configuration S h of
        Inl e \<Rightarrow> Inl e
      | Inr cfg \<Rightarrow> Inr (fetch_with time cfg c))"

text \<open>
  A run: the requests of one identifier, one after the other, each with the time at which
  it is handled and its configuration. It yields the status codes in order and the counter
  at the end.
\<close>

fun fetch_seq :: "(jsnum \<times> Configuration) list \<Rightarrow> Counter \<Rightarrow> nat list \<times> Counter" where
  "fetch_seq [] c = ([], c)"
| "fetch_seq ((time, cfg) # rs) c =
     (let (resp, c1) = fetch_with time cfg c;
          (sts, c2) = fetch_seq rs c1
      in (status resp # sts, c2))"

section \<open>Double arithmetic\<close>

text \<open>
  The numbers of the program are IEEE 754 doubles: the result of an addition, subtraction,
  multiplication or division of two finite numbers is the exact result rounded to the
  nearest double, a tie going to the double with the even significand, and an infinity when
  the rounded magnitude reaches \<open>2^1024\<close>. The finite doubles are the numbers
  \<open>m * 2^e\<close> with \<open>|m| < 2^53\<close> and \<open>-1074 \<le> e \<le> 971\<close>.
\<close>

text \<open>The nearest integer, a tie going to the even one.\<close>

definition round_half_even :: "rat \<Rightarrow> int" where
  "round_half_even x =
     (let f = \<lfloor>x\<rfloor>; d = x - of_int f
      in if d < 1 / 2 then f else if 1 / 2 < d then f + 1 else if even f then f else f + 1)"

text \<open>The spacing \<open>2^(a - 1074)\<close> of the doubles, for \<open>a\<close> from 0 to 2045.\<close>

definition unit_of :: "nat \<Rightarrow> rat" where
  "unit_of a = 2 ^ a / 2 ^ 1074"

text \<open>
  The spacing that applies to a magnitude \<open>x\<close>: the least \<open>a\<close> with
  \<open>x < 2^53 * unit_of a\<close>, and 2045 when there is none below.
\<close>

fun binade_from :: "nat \<Rightarrow> nat \<Rightarrow> rat \<Rightarrow> nat" where
  "binade_from 0 a x = a"
| "binade_from (Suc n) a x =
     (if x < 2 ^ 53 * unit_of a then a else binade_from n (Suc a) x)"

definition binade :: "rat \<Rightarrow> nat" where
  "binade x = binade_from 2045 0 x"

definition round_magnitude :: "rat \<Rightarrow> rat" where
  "round_magnitude x =
     of_int (round_half_even (x / unit_of (binade x))) * unit_of (binade x)"

definition round_double :: "rat \<Rightarrow> jsnum" where
  "round_double x =
     (let y = round_magnitude \<bar>x\<bar>
      in if 2 ^ 53 * unit_of 2045 \<le> y then (if 0 \<le> x then PInf else NInf)
         else Fin (if 0 \<le> x then y else - y))"

text \<open>
  The four operations with the result on finite numbers rounded by \<open>R\<close>. With \<open>R\<close> the
  function \<open>round_double\<close> they are the operations of the language; with \<open>R\<close> the
  constructor \<open>Fin\<close>, which rounds nothing, they are the exact operations above.
\<close>

fun radd :: "(rat \<Rightarrow> jsnum) \<Rightarrow> jsnum \<Rightarrow> jsnum \<Rightarrow> jsnum" where
  "radd R (Fin a) (Fin b) = R (a + b)"
| "radd R x y = jadd x y"

definition rsub :: "(rat \<Rightarrow> jsnum) \<Rightarrow> jsnum \<Rightarrow> jsnum \<Rightarrow> jsnum" where
  "rsub R a b = radd R a (jneg b)"

fun rmul :: "(rat \<Rightarrow> jsnum) \<Rightarrow> jsnum \<Rightarrow> jsnum \<Rightarrow> jsnum" where
  "rmul R (Fin a) (Fin b) = R (a * b)"
| "rmul R x y = jmul x y"

fun rdiv :: "(rat \<Rightarrow> jsnum) \<Rightarrow> jsnum \<Rightarrow> jsnum \<Rightarrow> jsnum" where
  "rdiv R (Fin a) (Fin b) = (if b = 0 then jdiv (Fin a) (Fin b) else R (a / b))"
| "rdiv R x y = jdiv x y"

text \<open>
  The bucket and the counter once more, line by line as above, over the rounded operations
  (\<open>Math.floor\<close>, \<open>Math.min\<close> and the comparisons are exact on doubles).
\<close>

definition take_token_rounded :: "(rat \<Rightarrow> jsnum) \<Rightarrow> bool \<Rightarrow> Bucket \<Rightarrow> bool \<times> Bucket" where
  "take_token_rounded R pre b =
     (let b1 = b\<lparr> active := True \<rparr> in
      if jle (tokens b1) (Fin 0) then (False, b1)
      else if \<not> pre then (True, b1\<lparr> tokens := rsub R (tokens b1) (Fin 1) \<rparr>)
      else (True, b1))"

definition fill_rounded :: "(rat \<Rightarrow> jsnum) \<Rightarrow> jsnum \<Rightarrow> Bucket \<Rightarrow> Bucket" where
  "fill_rounded R num b =
     b\<lparr> tokens := radd R (tokens b) (jmin (rsub R (max_size b) (tokens b)) num) \<rparr>"

definition fill_amount_rounded ::
  "(rat \<Rightarrow> jsnum) \<Rightarrow> jsnum \<Rightarrow> jsnum option \<Rightarrow> jsnum \<Rightarrow> Counter \<Rightarrow> jsnum" where
  "fill_amount_rounded R toks seconds time c =
     (case seconds of
        None \<Rightarrow> Fin 0
      | Some secs \<Rightarrow>
          (let tpsf = rdiv R toks secs;
               passed = jfloor (rdiv R (rsub R time (last_ms c)) (Fin 1000))
           in jfloor (rmul R tpsf passed)))"

definition should_block_rounded ::
  "(rat \<Rightarrow> jsnum) \<Rightarrow> jsnum \<Rightarrow> Configuration \<Rightarrow> Counter \<Rightarrow> bool \<times> Counter" where
  "should_block_rounded R time cfg c =
     (if behavior cfg \<noteq> Blocking then (False, c)
      else case per_seconds cfg of
        None \<Rightarrow> (False, c)
      | Some secs \<Rightarrow>
          (let (got, b) = take_token_rounded R True (bucket c);
               c1 = c\<lparr> bucket := b \<rparr>
           in if got then (False, c1)
              else (jlt (jfloor (rdiv R (rsub R time (last_ms c1)) (Fin 1000))) secs, c1)))"

definition fetch_with_rounded ::
  "(rat \<Rightarrow> jsnum) \<Rightarrow> jsnum \<Rightarrow> Configuration \<Rightarrow> Counter \<Rightarrow> Response \<times> Counter" where
  "fetch_with_rounded R time cfg c =
     (case requests cfg of
        None \<Rightarrow> respond True time c
      | Some reqs \<Rightarrow>
          (let c1 = c\<lparr> bucket := set_size reqs (bucket c) \<rparr>;
               amount = (if \<not> is_active (bucket c1) then reqs
                         else fill_amount_rounded R reqs (per_seconds cfg) time c1);
               (blocked, c2) = should_block_rounded R time cfg c1;
               c3 = (if \<not> blocked then c2\<lparr> bucket := fill_rounded R amount (bucket c2) \<rparr>
                     else c2);
               (got, b) = take_token_rounded R False (bucket c3)
           in respond got time (c3\<lparr> bucket := b \<rparr>)))"

fun fetch_seq_rounded ::
  "(rat \<Rightarrow> jsnum) \<Rightarrow> (jsnum \<times> Configuration) list \<Rightarrow> Counter \<Rightarrow> nat list \<times> Counter" where
  "fetch_seq_rounded R [] c = ([], c)"
| "fetch_seq_rounded R ((time, cfg) # rs) c =
     (let (resp, c1) = fetch_with_rounded R time cfg c;
          (sts, c2) = fetch_seq_rounded R rs c1
      in (status resp # sts, c2))"

section \<open>Scenarios and predicates of the properties\<close>

text \<open>\<^verbatim>\<open>new Configuration(10, 10, Behavior.Blocking)\<close>, as the constructor leaves it.\<close>

definition blocking_10_per_10 :: Configuration where
  "blocking_10_per_10 =
     \<lparr> requests = Some (Fin 10), per_seconds = Some (Fin 10), behavior = Blocking \<rparr>"

text \<open>\<^verbatim>\<open>new Configuration(20, 10, Behavior.Throttling)\<close>.\<close>

definition throttling_20_per_10 :: Configuration where
  "throttling_20_per_10 =
     \<lparr> requests = Some (Fin 20), per_seconds = Some (Fin 10), behavior = Throttling \<rparr>"

text \<open>\<^verbatim>\<open>new Configuration()\<close>: no limit.\<close>

definition unlimited :: Configuration where
  "unlimited = \<lparr> requests = None, per_seconds = None, behavior = Blocking \<rparr>"

text \<open>\<^verbatim>\<open>new Configuration(-5, 10, Behavior.Throttling)\<close>: the constructor keeps a negative number.\<close>

definition negative_quota :: Configuration where
  "negative_quota =
     \<lparr> requests = Some (Fin (- 5)), per_seconds = Some (Fin 10), behavior = Throttling \<rparr>"

text \<open>
  The counter after an unlimited request and a request under \<open>negative_quota\<close>, both at
  time 1000: its bucket is active and its last admitted request is at 1000.
\<close>

definition negative_quota_counter :: Counter where
  "negative_quota_counter =
     snd (fetch_seq [(Fin 1000, unlimited), (Fin 1000, negative_quota)]
            (Counter_new empty_storage))"

text \<open>
  The data model's words for a numeric field of a configuration: null, or a number that is
  not negative (NaN is not: every comparison with it is false).
\<close>

definition spec_numeric_field_ok :: "jsnum option \<Rightarrow> bool" where
  "spec_numeric_field_ok q = (case q of None \<Rightarrow> True | Some n \<Rightarrow> jle (Fin 0) n)"

text \<open>The capacity bound on a bucket: \<open>0 \<le> tokens \<le> max\<close>, with the program's comparison.\<close>

definition capacity_bound :: "Bucket \<Rightarrow> bool" where
  "capacity_bound b = (jle (Fin 0) (tokens b) \<and> jle (tokens b) (max_size b))"

text \<open>
  A number that is a double for certain: \<open>m * 2^a / 2^b\<close> with \<open>|m| \<le> 2^53\<close>,
  \<open>a \<le> 970\<close> and \<open>b \<le> 1074\<close>.
\<close>

definition representable :: "rat \<Rightarrow> bool" where
  "representable x =
     (\<exists>(m::int) (a::nat) (b::nat).
        \<bar>m\<bar> \<le> 2 ^ 53 \<and> a \<le> 970 \<and> b \<le> 1074 \<and> x = of_int m * 2 ^ a / 2 ^ b)"

text \<open>
  What the properties below need of the rounding: it keeps the order, and it leaves such a
  double as it is.
\<close>

definition rounds_like_double :: "(rat \<Rightarrow> jsnum) \<Rightarrow> bool" where
  "rounds_like_double R =
     ((\<forall>x y. x \<le> y \<longrightarrow> jle (R x) (R y)) \<and> (\<forall>x. representable x \<longrightarrow> R x = Fin x))"

text \<open>
  A configuration whose \<open>requests\<close> is null or a whole number from 1 to \<open>2^53\<close>, and whose
  \<open>per_seconds\<close> is null or a number that is at least 1.
\<close>

definition quota_in_range :: "Configuration \<Rightarrow> bool" where
  "quota_in_range cfg =
     ((case requests cfg of
         None \<Rightarrow> True
       | Some (Fin r) \<Rightarrow> 1 \<le> r \<and> r \<le> 2 ^ 53 \<and> of_int \<lfloor>r\<rfloor> = r
       | Some _ \<Rightarrow> False) \<and>
      (case per_seconds cfg of
         None \<Rightarrow> True
       | Some (Fin p) \<Rightarrow> 1 \<le> p
       | Some _ \<Rightarrow> False))"

text \<open>
  The times of a run are finite, do not decrease, start at \<open>l\<close> or later and stay at or
  below \<open>2^53\<close>.
\<close>

fun times_in_range :: "rat \<Rightarrow> (jsnum \<times> Configuration) list \<Rightarrow> bool" where
  "times_in_range l [] = True"
| "times_in_range l ((time, cfg) # rs) =
     (case time of Fin t \<Rightarrow> l \<le> t \<and> t \<le> 2 ^ 53 \<and> times_in_range t rs | _ \<Rightarrow> False)"

text \<open>
  The invariant behind the capacity bound: the last admitted request is between 0 and \<open>l\<close>,
  and the bucket holds a whole number of tokens between 0 and its capacity, a whole number
  that is at most \<open>2^53\<close>.
\<close>

definition bounded_at :: "rat \<Rightarrow> Counter \<Rightarrow> bool" where
  "bounded_at l c =
     (\<exists>l' k m. last_ms c = Fin l' \<and> 0 \<le> l' \<and> l' \<le> l \<and>
        tokens (bucket c) = Fin (of_int k) \<and> 0 \<le> k \<and>
        max_size (bucket c) = Fin (of_int m) \<and> k \<le> m \<and> m \<le> 2 ^ 53)"

section \<open>Single requests, computed\<close>

lemma init_state:
  "Counter_new empty_storage =
     \<lparr> storage = empty_storage, last_ms = Fin 0,
       bucket = \<lparr> max_size = Fin 0, tokens = Fin 0, active = False \<rparr> \<rparr>"
  by (simp add: Counter_new_def empty_storage_def Bucket_new_def)

text \<open>A request at the time of the last admitted one, the bucket holding \<open>k\<close> tokens.\<close>

lemma same_time_step:
  assumes "requests cfg = Some (Fin m)" "per_seconds cfg = Some (Fin p)" "0 < p"
    "0 \<le> k" "k \<le> m"
  shows "fetch_with (Fin t) cfg
      \<lparr> storage = st, last_ms = Fin t,
        bucket = \<lparr> max_size = Fin m', tokens = Fin k, active = True \<rparr> \<rparr> =
    (if 0 < k then
      (\<lparr> body = [], status = 200 \<rparr>,
       \<lparr> storage = \<lparr> stored_last = Some (Fin t),
           stored_tokens = Some \<lparr> max_size = Fin m, tokens = Fin (k - 1), active = True \<rparr> \<rparr>,
         last_ms = Fin t,
         bucket = \<lparr> max_size = Fin m, tokens = Fin (k - 1), active = True \<rparr> \<rparr>)
     else
      (\<lparr> body = [], status = 429 \<rparr>,
       \<lparr> storage = \<lparr> stored_last = Some (Fin t),
           stored_tokens = Some \<lparr> max_size = Fin m, tokens = Fin k, active = True \<rparr> \<rparr>,
         last_ms = Fin t,
         bucket = \<lparr> max_size = Fin m, tokens = Fin k, active = True \<rparr> \<rparr>))"
  using assms
  by (auto simp: fetch_with_def set_size_def is_active_def fill_amount_def
      should_block_def take_token_def fill_def respond_def persist_def jsub_def jmin_def
      Let_def min_def)

section \<open>Configuration normalization\<close>

text \<open>
  Claim C4. The constructor maps the number 0 given for \<open>requests\<close> to null, and so it does
  every input whose conversion to a number is NaN (an unparseable, non-numeric input) or 0;
  the same holds for \<open>per_seconds\<close>. Null is the setting without a limit, not a quota of
  zero tokens.
\<close>

theorem Configuration_zero_to_null:
  "requests (Configuration_new S (JNum (Fin 0)) p b) = None \<and>
   per_seconds (Configuration_new S r (JNum (Fin 0)) b) = None \<and>
   (Number S v = NaN \<or> Number S v = Fin 0 \<longrightarrow>
      requests (Configuration_new S v p b) = None \<and>
      per_seconds (Configuration_new S r v b) = None)"
  by (cases v) (auto simp: Configuration_new_def or_null_def default_arg_def)

theorem Configuration_zero_to_null_witness:
  "Number StringToNumber_digits (JStr ''abc'') = NaN \<and>
   requests (Configuration_new StringToNumber_digits (JStr ''abc'') JNull Blocking) = None \<and>
   Number StringToNumber_digits (JStr ''0'') = Fin 0 \<and>
   per_seconds (Configuration_new StringToNumber_digits JNull (JStr ''0'') Blocking) = None"
proof -
  have a: "Number StringToNumber_digits (JStr ''abc'') = NaN"
    by code_simp
  have b: "Number StringToNumber_digits (JStr ''0'') = Fin 0"
    by code_simp
  show ?thesis
    using a b
      Configuration_zero_to_null [of StringToNumber_digits JNull Blocking JNull "JStr ''abc''"]
      Configuration_zero_to_null [of StringToNumber_digits JNull Blocking JNull "JStr ''0''"]
    by simp
qed

text \<open>
  Claim C7, as stated, fails: the number -5 given for \<open>requests\<close> is kept as it is, and it
  is negative.
\<close>

theorem Configuration_negative_counterexample:
  "\<not> spec_numeric_field_ok
       (requests (Configuration_new StringToNumber_digits (JNum (Fin (- 5))) JNull JUndefined))"
  by (simp add: spec_numeric_field_ok_def Configuration_new_def or_null_def default_arg_def)

text \<open>
  Claim C7, amended. For every raw input, \<open>requests\<close> and \<open>per_seconds\<close> are each either
  null or a number that is neither NaN nor zero; being of the number type, neither is a
  string. The number may be negative.
\<close>

theorem Configuration_fields_null_or_truthy:
  "requests (Configuration_new S r p b) \<noteq> Some NaN \<and>
   requests (Configuration_new S r p b) \<noteq> Some (Fin 0) \<and>
   per_seconds (Configuration_new S r p b) \<noteq> Some NaN \<and>
   per_seconds (Configuration_new S r p b) \<noteq> Some (Fin 0)"
  by (simp add: Configuration_new_def or_null_def)

theorem Configuration_fields_null_or_truthy_witness:
  "requests (Configuration_new StringToNumber_digits (JStr ''10'') (JStr ''x'') JUndefined)
     \<noteq> Some NaN \<and>
   per_seconds (Configuration_new StringToNumber_digits (JStr ''10'') (JStr ''x'') JUndefined)
     \<noteq> Some (Fin 0)"
  using Configuration_fields_null_or_truthy
    [of StringToNumber_digits "JStr ''10''" "JStr ''x''" JUndefined]
  by simp

section \<open>The blocking test\<close>

text \<open>
  Claim C3. For every time, configuration and counter, \<open>should_block\<close> returns true exactly
  when the behavior is Blocking, \<open>per_seconds\<close> is not null, a peek into the bucket finds no
  token, and \<open>floor((time - last) / 1000) < per_seconds\<close>; it returns false in every other
  case. The peek takes no token.
\<close>

theorem should_block_iff:
  "fst (should_block time cfg c) =
     (behavior cfg = Blocking \<and>
      (\<exists>secs. per_seconds cfg = Some secs \<and>
         \<not> fst (take_token True (bucket c)) \<and>
         jlt (jfloor (jdiv (jsub time (last_ms c)) (Fin 1000))) secs)) \<and>
   tokens (snd (take_token True (bucket c))) = tokens (bucket c)"
  by (auto simp: should_block_def take_token_def Let_def split: option.splits prod.splits)

theorem should_block_iff_witness:
  "fst (should_block (Fin 5000) blocking_10_per_10 (Counter_new empty_storage)) \<and>
   \<not> fst (should_block (Fin 10000) blocking_10_per_10 (Counter_new empty_storage))"
  using should_block_iff [of "Fin 5000" blocking_10_per_10 "Counter_new empty_storage"]
    should_block_iff [of "Fin 10000" blocking_10_per_10 "Counter_new empty_storage"]
  by (simp add: blocking_10_per_10_def init_state take_token_def jsub_def)

text \<open>
  Claim C9. The constructor stores the behavior it is given (the default, Blocking, stands
  in for \<^verbatim>\<open>undefined\<close> only), and the fields of the \<^verbatim>\<open>_configuration\<close> record go to it as
  they are. For every configuration whose behavior is anything but the number 0 of
  Blocking, \<open>should_block\<close> returns false and leaves the counter alone, and the request is
  handled as it is under Throttling: when \<open>requests\<close> is not null, the capacity is set, the
  bucket is filled with the amount whatever the time since the last admitted request, and
  the answer is that of the take on the bucket so filled.
\<close>

theorem behavior_not_validated:
  "configuration S (HFields r p b) = Inr (Configuration_new S r p b) \<and>
   behavior (Configuration_new S r p b) = default_arg Blocking b \<and>
   (behavior cfg \<noteq> Blocking \<longrightarrow>
      should_block time cfg c = (False, c) \<and>
      fetch_with time cfg c = fetch_with time (cfg\<lparr> behavior := Throttling \<rparr>) c \<and>
      (\<forall>reqs. requests cfg = Some reqs \<longrightarrow>
         fetch_with time cfg c =
           (let c1 = c\<lparr> bucket := set_size reqs (bucket c) \<rparr>;
                amount = (if \<not> is_active (bucket c1) then reqs
                          else fill_amount reqs (per_seconds cfg) time c1);
                (got, b1) = take_token False (fill amount (bucket c1))
            in respond got time (c1\<lparr> bucket := b1 \<rparr>))))"
  by (auto simp: configuration_def Configuration_new_def DEFAULT_BEHAVIOR_def should_block_def
      fetch_with_def Blocking_def Throttling_def Let_def split: option.splits)

theorem behavior_not_validated_witness:
  "configuration StringToNumber_digits
      (HFields (JNum (Fin 10)) (JNum (Fin 10)) (JNum (Fin 7))) =
     Inr \<lparr> requests = Some (Fin 10), per_seconds = Some (Fin 10), behavior = JNum (Fin 7) \<rparr> \<and>
   JNum (Fin 7) \<noteq> Blocking \<and>
   fetch_with (Fin 1700000001000)
      \<lparr> requests = Some (Fin 10), per_seconds = Some (Fin 10), behavior = JNum (Fin 7) \<rparr>
      \<lparr> storage = empty_storage, last_ms = Fin 1700000000000,
        bucket = \<lparr> max_size = Fin 10, tokens = Fin 0, active = True \<rparr> \<rparr> =
     (\<lparr> body = [], status = 200 \<rparr>,
      \<lparr> storage = \<lparr> stored_last = Some (Fin 1700000001000),
            stored_tokens = Some \<lparr> max_size = Fin 10, tokens = Fin 0, active = True \<rparr> \<rparr>,
        last_ms = Fin 1700000001000,
        bucket = \<lparr> max_size = Fin 10, tokens = Fin 0, active = True \<rparr> \<rparr>) \<and>
   status (fst (fetch_with (Fin 1700000001000) blocking_10_per_10
      \<lparr> storage = empty_storage, last_ms = Fin 1700000000000,
        bucket = \<lparr> max_size = Fin 10, tokens = Fin 0, active = True \<rparr> \<rparr>)) = 429"
proof -
  have n: "JNum (Fin 7) \<noteq> Blocking"
    by (simp add: Blocking_def)
  have blocked: "status (fst (fetch_with (Fin 1700000001000) blocking_10_per_10
      \<lparr> storage = empty_storage, last_ms = Fin 1700000000000,
        bucket = \<lparr> max_size = Fin 10, tokens = Fin 0, active = True \<rparr> \<rparr>)) = 429"
    by (simp add: fetch_with_def blocking_10_per_10_def set_size_def is_active_def
        fill_amount_def should_block_def take_token_def respond_def persist_def jsub_def
        Let_def)
  show ?thesis
    using n blocked
      behavior_not_validated [of StringToNumber_digits "JNum (Fin 10)" "JNum (Fin 10)"
        "JNum (Fin 7)"
        "\<lparr> requests = Some (Fin 10), per_seconds = Some (Fin 10), behavior = JNum (Fin 7) \<rparr>"
        "Fin 1700000001000"
        "\<lparr> storage = empty_storage, last_ms = Fin 1700000000000,
          bucket = \<lparr> max_size = Fin 10, tokens = Fin 0, active = True \<rparr> \<rparr>"]
    by (simp add: Configuration_new_def or_null_def default_arg_def fetch_with_def
        should_block_def Blocking_def Throttling_def set_size_def is_active_def
        fill_amount_def fill_def take_token_def respond_def persist_def jsub_def jmin_def
        Let_def)
qed

section \<open>Handling one request\<close>

text \<open>
  Claim C5. For every configuration whose \<open>requests\<close> is null and every counter, the request
  is allowed (status 200), \<open>last\<close> becomes the current time, both entries are written to
  storage, and the bucket stays as it was: no field of it is changed, and nothing in the
  outcome depends on it.
\<close>

theorem unlimited_pass_through:
  "requests cfg = None \<Longrightarrow>
   fetch_with time cfg c =
     (\<lparr> body = [], status = 200 \<rparr>,
      c\<lparr> last_ms := time,
         storage := \<lparr> stored_last = Some time, stored_tokens = Some (bucket c) \<rparr> \<rparr>)"
  by (simp add: fetch_with_def respond_def persist_def)

theorem unlimited_pass_through_witness:
  "requests unlimited = None \<and>
   fetch_with (Fin 1700000000000) unlimited negative_quota_counter =
     (\<lparr> body = [], status = 200 \<rparr>,
      negative_quota_counter\<lparr> last_ms := Fin 1700000000000,
         storage := \<lparr> stored_last = Some (Fin 1700000000000),
                      stored_tokens = Some (bucket negative_quota_counter) \<rparr> \<rparr>)"
proof -
  have h: "requests unlimited = None"
    by (simp add: unlimited_def)
  show ?thesis
    using h unlimited_pass_through [OF h, of "Fin 1700000000000" negative_quota_counter]
    by simp
qed

text \<open>
  Claim C8. For every request whose configuration has a \<open>requests\<close> that is not null: the
  take succeeds exactly when the bucket, after the capacity is set and the fill is applied
  or skipped, holds more than zero tokens; if it succeeds the status is 200 and \<open>last\<close>
  becomes the current time, if it fails the status is 429 and \<open>last\<close> keeps its value; in
  both cases \<open>last\<close> and the bucket are written to storage.
\<close>

theorem respond_frame:
  "requests cfg = Some reqs \<Longrightarrow>
   (let c1 = c\<lparr> bucket := set_size reqs (bucket c) \<rparr>;
        amount = (if \<not> is_active (bucket c1) then reqs
                  else fill_amount reqs (per_seconds cfg) time c1);
        (blocked, c2) = should_block time cfg c1;
        b0 = (if blocked then bucket c2 else fill amount (bucket c2));
        (got, b1) = take_token False b0;
        (resp, c') = fetch_with time cfg c
    in got = (\<not> jle (tokens b0) (Fin 0)) \<and>
       status resp = (if got then 200 else 429) \<and>
       last_ms c' = (if got then time else last_ms c) \<and>
       bucket c' = b1 \<and>
       storage c' = \<lparr> stored_last = Some (last_ms c'), stored_tokens = Some (bucket c') \<rparr>)"
  by (auto simp: fetch_with_def respond_def persist_def should_block_def take_token_def Let_def
      split: option.splits prod.splits if_splits)

theorem respond_frame_witness:
  "requests blocking_10_per_10 = Some (Fin 10) \<and>
   status (fst (fetch_with (Fin 5000) blocking_10_per_10 (Counter_new empty_storage))) = 429 \<and>
   last_ms (snd (fetch_with (Fin 5000) blocking_10_per_10 (Counter_new empty_storage))) = Fin 0 \<and>
   status (fst (fetch_with (Fin 10000) blocking_10_per_10 (Counter_new empty_storage))) = 200 \<and>
   last_ms (snd (fetch_with (Fin 10000) blocking_10_per_10 (Counter_new empty_storage))) =
     Fin 10000"
proof -
  have h: "requests blocking_10_per_10 = Some (Fin 10)"
    by (simp add: blocking_10_per_10_def)
  have sb: "fst (should_block (Fin 5000) blocking_10_per_10
                   ((Counter_new empty_storage)
                      \<lparr> bucket := set_size (Fin 10) (bucket (Counter_new empty_storage)) \<rparr>))"
    "\<not> fst (should_block (Fin 10000) blocking_10_per_10
                   ((Counter_new empty_storage)
                      \<lparr> bucket := set_size (Fin 10) (bucket (Counter_new empty_storage)) \<rparr>))"
    by (simp_all add: should_block_def blocking_10_per_10_def init_state set_size_def
        take_token_def jsub_def)
  show ?thesis
    using h sb
      respond_frame [OF h, of "Counter_new empty_storage" "Fin 5000"]
      respond_frame [OF h, of "Counter_new empty_storage" "Fin 10000"]
    by (auto simp: Let_def init_state set_size_def is_active_def should_block_def
        blocking_10_per_10_def take_token_def fill_def jsub_def jmin_def
        split: prod.splits if_splits)
qed

section \<open>The two scenarios\<close>

lemma blocking_first:
  assumes "10000 \<le> t"
  shows "fetch_with (Fin t) blocking_10_per_10 (Counter_new empty_storage) =
    (\<lparr> body = [], status = 200 \<rparr>,
     \<lparr> storage = \<lparr> stored_last = Some (Fin t),
           stored_tokens = Some \<lparr> max_size = Fin 10, tokens = Fin 9, active = True \<rparr> \<rparr>,
       last_ms = Fin t,
       bucket = \<lparr> max_size = Fin 10, tokens = Fin 9, active = True \<rparr> \<rparr>)"
proof -
  have "10 \<le> t / 1000"
    using assms by simp
  then have "\<not> \<lfloor>t / 1000\<rfloor> < 10"
    by (simp add: le_floor_iff)
  then have "\<not> (of_int \<lfloor>t / 1000\<rfloor> :: rat) < 10"
    by (metis of_int_less_iff of_int_numeral)
  then show ?thesis
    by (simp add: init_state fetch_with_def blocking_10_per_10_def set_size_def is_active_def
        should_block_def take_token_def fill_def respond_def persist_def jsub_def jmin_def
        Let_def)
qed

lemma throttling_first:
  "fetch_with (Fin t) throttling_20_per_10 (Counter_new empty_storage) =
    (\<lparr> body = [], status = 200 \<rparr>,
     \<lparr> storage = \<lparr> stored_last = Some (Fin t),
           stored_tokens = Some \<lparr> max_size = Fin 20, tokens = Fin 19, active = True \<rparr> \<rparr>,
       last_ms = Fin t,
       bucket = \<lparr> max_size = Fin 20, tokens = Fin 19, active = True \<rparr> \<rparr>)"
  by (simp add: init_state fetch_with_def throttling_20_per_10_def set_size_def is_active_def
      should_block_def take_token_def fill_def respond_def persist_def jsub_def jmin_def
      Let_def Blocking_def Throttling_def)

lemma throttling_after_one_second:
  assumes "1000 \<le> d" "d < 2000"
  shows "fetch_with (Fin (t + d)) throttling_20_per_10
      \<lparr> storage = st, last_ms = Fin t,
        bucket = \<lparr> max_size = Fin 20, tokens = Fin 0, active = True \<rparr> \<rparr> =
    (\<lparr> body = [], status = 200 \<rparr>,
     \<lparr> storage = \<lparr> stored_last = Some (Fin (t + d)),
           stored_tokens = Some \<lparr> max_size = Fin 20, tokens = Fin 1, active = True \<rparr> \<rparr>,
       last_ms = Fin (t + d),
       bucket = \<lparr> max_size = Fin 20, tokens = Fin 1, active = True \<rparr> \<rparr>)"
proof -
  have "1 \<le> d / 1000" "d / 1000 < 2"
    using assms by simp_all
  then have "\<lfloor>d / 1000\<rfloor> = 1"
    by (simp add: floor_eq_iff)
  then show ?thesis
    by (simp add: fetch_with_def throttling_20_per_10_def set_size_def is_active_def
        fill_amount_def should_block_def take_token_def fill_def respond_def persist_def
        jsub_def jmin_def Let_def Blocking_def Throttling_def)
qed

text \<open>
  Claim C1. With \<^verbatim>\<open>Configuration(10, 10, Blocking)\<close>, from the initial state
  (\<open>last\<close> = 0, bucket of capacity 0, not active), 11 requests in a row at one and the same
  current time \<open>t\<close> get status 200 for the first 10 and 429 for the 11th. The current time
  is not an input of the caller: it is \<^verbatim>\<open>Math.trunc(new Date().getTime())\<close>, the reading
  of the clock in milliseconds since 1970, which is at least 10000 (one window after
  \<open>last\<close> = 0).
\<close>

theorem hard_blocking_after_first_window:
  assumes "10000 \<le> t"
  shows "fst (fetch_seq (replicate 11 (Fin t, blocking_10_per_10)) (Counter_new empty_storage)) =
    replicate 10 200 @ [429]"
proof -
  have cfg: "requests blocking_10_per_10 = Some (Fin 10)"
    "per_seconds blocking_10_per_10 = Some (Fin 10)"
    by (simp_all add: blocking_10_per_10_def)
  have r: "replicate 11 x = [x, x, x, x, x, x, x, x, x, x, x]" for x :: "jsnum \<times> Configuration"
    by (simp add: numeral_eq_Suc)
  have r': "replicate 10 x = [x, x, x, x, x, x, x, x, x, x]" for x :: nat
    by (simp add: numeral_eq_Suc)
  show ?thesis
    unfolding r r'
    by (simp add: blocking_first [OF assms] same_time_step [OF cfg])
qed

theorem hard_blocking_after_first_window_witness:
  "(10000 :: rat) \<le> 1700000000000 \<and>
   fst (fetch_seq (replicate 11 (Fin 1700000000000, blocking_10_per_10))
          (Counter_new empty_storage)) =
     [200, 200, 200, 200, 200, 200, 200, 200, 200, 200, 429]"
proof -
  have h: "(10000 :: rat) \<le> 1700000000000"
    by simp
  show ?thesis
    using h hard_blocking_after_first_window [OF h]
    by (simp add: numeral_eq_Suc)
qed

text \<open>
  Claim C2. With \<^verbatim>\<open>Configuration(20, 10, Throttling)\<close>, from the initial state, 20
  requests at a time \<open>t\<close> are all allowed and use up the 20 tokens. At a time \<open>t + d\<close>
  one whole second later (\<open>1000 \<le> d < 2000\<close>), with no request in between, the next
  requests are allowed exactly 2 times and the one after those is denied.
\<close>

theorem graduated_throttling:
  assumes "1000 \<le> d" "d < 2000"
  shows "fst (fetch_seq
            (replicate 20 (Fin t, throttling_20_per_10) @
             replicate 3 (Fin (t + d), throttling_20_per_10))
            (Counter_new empty_storage)) =
    replicate 20 200 @ [200, 200, 429]"
proof -
  have cfg: "requests throttling_20_per_10 = Some (Fin 20)"
    "per_seconds throttling_20_per_10 = Some (Fin 10)"
    by (simp_all add: throttling_20_per_10_def)
  show ?thesis
    by (simp add: numeral_eq_Suc throttling_first
        throttling_after_one_second [OF assms] same_time_step [OF cfg])
qed

theorem graduated_throttling_witness:
  "(1000 :: rat) \<le> 1000 \<and> (1000 :: rat) < 2000 \<and>
   fst (fetch_seq
          (replicate 20 (Fin 1700000000000, throttling_20_per_10) @
           replicate 3 (Fin (1700000000000 + 1000), throttling_20_per_10))
          (Counter_new empty_storage)) =
     replicate 20 200 @ [200, 200, 429]"
proof -
  have h1: "(1000 :: rat) \<le> 1000" and h2: "(1000 :: rat) < 2000"
    by simp_all
  show ?thesis
    using h1 h2 graduated_throttling [OF h1 h2, of 1700000000000]
    by simp
qed

section \<open>Rounding to the nearest double\<close>

lemma round_half_even_int: "round_half_even (of_int n) = n"
  by (simp add: round_half_even_def)

lemma round_half_even_cases:
  "round_half_even x = \<lfloor>x\<rfloor> \<or> round_half_even x = \<lfloor>x\<rfloor> + 1"
  by (simp add: round_half_even_def Let_def)

lemma round_half_even_mono:
  assumes "x \<le> y"
  shows "round_half_even x \<le> round_half_even y"
proof (cases "\<lfloor>x\<rfloor> = \<lfloor>y\<rfloor>")
  case True
  then show ?thesis
    using assms by (auto simp: round_half_even_def Let_def)
next
  case False
  then have "\<lfloor>x\<rfloor> + 1 \<le> \<lfloor>y\<rfloor>"
    using floor_mono [OF assms] by simp
  then show ?thesis
    using round_half_even_cases [of x] round_half_even_cases [of y] by auto
qed

lemma unit_of_pos: "0 < unit_of a"
  unfolding unit_of_def by (intro divide_pos_pos zero_less_power) simp_all

lemma unit_of_add: "unit_of (a + k) = 2 ^ k * unit_of a"
  unfolding unit_of_def by (simp only: power_add times_divide_eq_right mult.commute)

lemma unit_of_mono: "a \<le> b \<Longrightarrow> unit_of a \<le> unit_of b"
proof -
  assume "a \<le> b"
  then obtain k where "b = a + k"
    using le_Suc_ex by blast
  moreover have "(1 :: rat) \<le> 2 ^ k"
    by simp
  ultimately show ?thesis
    using unit_of_pos [of a] by (simp only: unit_of_add) (simp add: unit_of_pos)
qed

lemma binade_from_range: "a \<le> binade_from n a x \<and> binade_from n a x \<le> a + n"
proof (induction n arbitrary: a)
  case 0
  then show ?case
    by simp
next
  case (Suc n)
  have "Suc a \<le> binade_from n (Suc a) x" "binade_from n (Suc a) x \<le> Suc a + n"
    using Suc.IH [of "Suc a"] by blast+
  then have "a \<le> binade_from n (Suc a) x" "binade_from n (Suc a) x \<le> a + Suc n"
    by linarith+
  then show ?case
    by simp
qed

lemma binade_from_below:
  "binade_from n a x < a + n \<Longrightarrow> x < 2 ^ 53 * unit_of (binade_from n a x)"
proof (induction n arbitrary: a)
  case 0
  then show ?case
    by simp
next
  case (Suc n)
  then show ?case
    using Suc.IH [of "Suc a"] by (auto split: if_splits)
qed

lemma binade_from_above:
  "a \<le> b \<Longrightarrow> b < binade_from n a x \<Longrightarrow> \<not> x < 2 ^ 53 * unit_of b"
proof (induction n arbitrary: a)
  case 0
  then show ?case
    by simp
next
  case (Suc n)
  show ?case
  proof (cases "x < 2 ^ 53 * unit_of a")
    case True
    then show ?thesis
      using Suc.prems by simp
  next
    case False
    show ?thesis
    proof (cases "a = b")
      case True
      then show ?thesis
        using False by simp
    next
      case ne: False
      then have "Suc a \<le> b"
        using Suc.prems(1) by simp
      moreover have "b < binade_from n (Suc a) x"
        using Suc.prems(2) False by simp
      ultimately show ?thesis
        by (rule Suc.IH)
    qed
  qed
qed

lemma binade_le: "binade x \<le> 2045"
  using binade_from_range [of 0 2045 x] by (simp add: binade_def)

lemma binade_below: "binade x < 2045 \<Longrightarrow> x < 2 ^ 53 * unit_of (binade x)"
  using binade_from_below [of 2045 0 x] by (simp add: binade_def)

lemma binade_above: "b < binade x \<Longrightarrow> 2 ^ 53 * unit_of b \<le> x"
  using binade_from_above [of 0 b 2045 x] by (simp add: binade_def)

lemma binade_mono:
  assumes "x \<le> y"
  shows "binade x \<le> binade y"
proof (rule ccontr)
  assume "\<not> binade x \<le> binade y"
  then have lt: "binade y < binade x"
    by simp
  then have "binade y < 2045"
    using binade_le [of x] by simp
  then have "y < 2 ^ 53 * unit_of (binade y)"
    by (rule binade_below)
  moreover have "2 ^ 53 * unit_of (binade y) \<le> x"
    using lt by (rule binade_above)
  ultimately show False
    using assms by simp
qed


lemma round_magnitude_nonneg:
  assumes "0 \<le> x"
  shows "0 \<le> round_magnitude x"
proof -
  have "0 \<le> x / unit_of (binade x)"
    using assms unit_of_pos [of "binade x"] by simp
  then have "round_half_even 0 \<le> round_half_even (x / unit_of (binade x))"
    by (rule round_half_even_mono)
  then have "0 \<le> round_half_even (x / unit_of (binade x))"
    using round_half_even_int [of 0] by simp
  then show ?thesis
    using unit_of_pos [of "binade x"] by (simp add: round_magnitude_def)
qed

lemma round_magnitude_mono:
  assumes "0 \<le> x" "x \<le> y"
  shows "round_magnitude x \<le> round_magnitude y"
proof (cases "binade x = binade y")
  case True
  have "x / unit_of (binade y) \<le> y / unit_of (binade y)"
    using assms(2) unit_of_pos [of "binade y"] by (simp add: divide_right_mono)
  then have "round_half_even (x / unit_of (binade y)) \<le> round_half_even (y / unit_of (binade y))"
    by (rule round_half_even_mono)
  then have "(of_int (round_half_even (x / unit_of (binade y))) :: rat)
      \<le> of_int (round_half_even (y / unit_of (binade y)))"
    by simp
  then show ?thesis
    using True unit_of_pos [of "binade y"]
    by (simp add: round_magnitude_def mult_right_mono)
next
  case False
  define a where "a = binade x"
  define b where "b = binade y"
  have ab: "a < b"
    using False binade_mono [OF assms(2)] by (simp add: a_def b_def)
  then have "a < 2045"
    using binade_le [of y] by (simp add: b_def)
  then have "x < 2 ^ 53 * unit_of a"
    unfolding a_def by (rule binade_below)
  then have "x / unit_of a \<le> of_int (2 ^ 53)"
    using unit_of_pos [of a] by (simp add: pos_divide_le_eq)
  then have "round_half_even (x / unit_of a) \<le> round_half_even (of_int (2 ^ 53))"
    by (rule round_half_even_mono)
  then have "round_half_even (x / unit_of a) \<le> 2 ^ 53"
    by (simp only: round_half_even_int)
  then have "(of_int (round_half_even (x / unit_of a)) :: rat) \<le> 2 ^ 53"
    by (metis of_int_le_iff of_int_numeral of_int_power)
  then have lo: "round_magnitude x \<le> 2 ^ 53 * unit_of a"
    using unit_of_pos [of a] by (simp add: round_magnitude_def a_def [symmetric] mult_right_mono)
  obtain b' where b': "b = Suc b'"
    using ab by (cases b) auto
  have ub: "unit_of b = 2 * unit_of b'"
    using unit_of_add [of b' 1] by (simp add: b')
  have "2 ^ 53 * unit_of b' \<le> y"
    using binade_above [of b' y] by (simp add: b_def [symmetric] b')
  then have "of_int (2 ^ 52) \<le> y / unit_of b"
    using unit_of_pos [of b'] by (simp add: ub pos_le_divide_eq)
  then have "round_half_even (of_int (2 ^ 52)) \<le> round_half_even (y / unit_of b)"
    by (rule round_half_even_mono)
  then have "2 ^ 52 \<le> round_half_even (y / unit_of b)"
    by (simp only: round_half_even_int)
  then have "(2 ^ 52 :: rat) \<le> of_int (round_half_even (y / unit_of b))"
    by (metis of_int_le_iff of_int_numeral of_int_power)
  then have hi: "2 ^ 52 * unit_of b \<le> round_magnitude y"
    using unit_of_pos [of b] by (simp add: round_magnitude_def b_def [symmetric] mult_right_mono)
  have "unit_of a \<le> unit_of b'"
    using ab by (intro unit_of_mono) (simp add: b')
  then have "2 ^ 53 * unit_of a \<le> 2 ^ 52 * unit_of b"
    by (simp add: ub)
  then show ?thesis
    using lo hi by simp
qed

lemma round_magnitude_exact:
  assumes "0 \<le> m" "m < 2 ^ 53" "e \<le> 2045"
  shows "round_magnitude (of_int m * unit_of e) = of_int m * unit_of e"
    and "of_int m * unit_of e < 2 ^ 53 * unit_of 2045"
proof -
  define x where "x = of_int m * unit_of e"
  have mq: "(of_int m :: rat) < 2 ^ 53"
    using assms(2) by (metis of_int_less_iff of_int_numeral of_int_power)
  have le: "binade x \<le> e"
  proof (rule ccontr)
    assume "\<not> binade x \<le> e"
    then have "2 ^ 53 * unit_of e \<le> x"
      using binade_above [of e x] by simp
    then show False
      using mq unit_of_pos [of e] by (simp add: x_def)
  qed
  define a where "a = binade x"
  obtain k where k: "e = a + k"
    using le le_Suc_ex unfolding a_def by blast
  have xa: "x = of_int (m * 2 ^ k) * unit_of a"
    unfolding x_def k unit_of_add by simp
  have "x / unit_of a = of_int (m * 2 ^ k)"
    unfolding xa using unit_of_pos [of a] by simp
  then have "round_half_even (x / unit_of a) = m * 2 ^ k"
    by (simp only: round_half_even_int)
  then have "round_magnitude x = of_int (m * 2 ^ k) * unit_of a"
    by (simp only: round_magnitude_def a_def [symmetric])
  then have "round_magnitude x = x"
    using xa by simp
  then show "round_magnitude (of_int m * unit_of e) = of_int m * unit_of e"
    by (simp only: x_def)
  have "of_int m * unit_of e < 2 ^ 53 * unit_of e"
    using mq unit_of_pos [of e] by simp
  also have "2 ^ 53 * unit_of e \<le> 2 ^ 53 * unit_of 2045"
    using unit_of_mono [OF assms(3)] by simp
  finally show "of_int m * unit_of e < 2 ^ 53 * unit_of 2045" .
qed


lemma power_shift:
  assumes "b \<le> n"
  shows "(2 :: rat) ^ (a + (n - b)) / 2 ^ n = 2 ^ a / 2 ^ b"
proof -
  have "(2 :: rat) ^ n = 2 ^ (n - b) * 2 ^ b"
    using assms by (simp add: power_add [symmetric])
  then show ?thesis
    by (simp add: power_add)
qed

lemma representable_canonical:
  assumes "representable x"
  shows "\<exists>m e. 0 \<le> m \<and> m < 2 ^ 53 \<and> e \<le> 2045 \<and> \<bar>x\<bar> = of_int m * unit_of e"
proof -
  from assms obtain m :: int and a b :: nat where
    m: "\<bar>m\<bar> \<le> 2 ^ 53" "a \<le> 970" "b \<le> 1074" and x: "x = of_int m * 2 ^ a / 2 ^ b"
    unfolding representable_def by blast
  define e where "e = a + (1074 - b)"
  have u: "unit_of e = 2 ^ a / 2 ^ b"
    unfolding unit_of_def e_def using m(3) by (rule power_shift)
  have e: "e \<le> 2044"
    using m(2) by (simp add: e_def)
  have ax: "\<bar>x\<bar> = of_int \<bar>m\<bar> * unit_of e"
    unfolding u x by (simp add: abs_mult abs_divide)
  show ?thesis
  proof (cases "\<bar>m\<bar> < 2 ^ 53")
    case True
    then show ?thesis
      using ax e by (intro exI [of _ "\<bar>m\<bar>"] exI [of _ e]) simp
  next
    case False
    then have "\<bar>m\<bar> = 2 ^ 53"
      using m(1) by simp
    then have "\<bar>x\<bar> = of_int (2 ^ 52) * unit_of (e + 1)"
      unfolding ax unit_of_add by simp
    then show ?thesis
      using e by (intro exI [of _ "2 ^ 52"] exI [of _ "e + 1"]) simp
  qed
qed

lemma round_double_exact:
  assumes "representable x"
  shows "round_double x = Fin x"
proof -
  from representable_canonical [OF assms] obtain m e where
    c: "0 \<le> m" "m < 2 ^ 53" "e \<le> 2045" "\<bar>x\<bar> = of_int m * unit_of e"
    by blast
  have "round_magnitude \<bar>x\<bar> = \<bar>x\<bar>" "\<bar>x\<bar> < 2 ^ 53 * unit_of 2045"
    using round_magnitude_exact [OF c(1,2,3)] c(4) by simp_all
  then show ?thesis
    by (auto simp: round_double_def Let_def)
qed

lemma round_double_mono:
  assumes "x \<le> y"
  shows "jle (round_double x) (round_double y)"
proof -
  have nn: "0 \<le> round_magnitude \<bar>x\<bar>" "0 \<le> round_magnitude \<bar>y\<bar>"
    by (simp_all add: round_magnitude_nonneg)
  consider "0 \<le> x" | "x < 0" "0 \<le> y" | "y < 0"
    by linarith
  then show ?thesis
  proof cases
    case 1
    then have "round_magnitude \<bar>x\<bar> \<le> round_magnitude \<bar>y\<bar>"
      using assms by (intro round_magnitude_mono) simp_all
    then show ?thesis
      using 1 assms by (auto simp: round_double_def Let_def)
  next
    case 2
    then show ?thesis
      using nn by (auto simp: round_double_def Let_def)
  next
    case 3
    then have "round_magnitude \<bar>y\<bar> \<le> round_magnitude \<bar>x\<bar>"
      using assms by (intro round_magnitude_mono) simp_all
    then show ?thesis
      using 3 assms by (auto simp: round_double_def Let_def)
  qed
qed

lemma round_double_like: "rounds_like_double round_double"
  by (simp add: rounds_like_double_def round_double_mono round_double_exact)

text \<open>
  The rounding does round: a magnitude below half the smallest double goes to 0, a
  magnitude of \<open>2^1024\<close> or more goes to an infinity, and \<open>2^53 + 1\<close>, halfway between
  two doubles, goes to the even one.
\<close>

lemma binade_zero: "x < 2 ^ 53 * unit_of 0 \<Longrightarrow> binade x = 0"
proof (rule ccontr)
  assume a: "x < 2 ^ 53 * unit_of 0" and "binade x \<noteq> 0"
  then have "0 < binade x"
    by simp
  then have "2 ^ 53 * unit_of 0 \<le> x"
    by (rule binade_above)
  then show False
    using a by simp
qed

lemma round_double_underflow:
  assumes "0 \<le> x" "x < unit_of 0 / 2"
  shows "round_double x = Fin 0"
proof -
  have "x < 2 ^ 53 * unit_of 0"
    using assms(2) unit_of_pos [of 0] by (simp add: field_simps)
  then have b: "binade x = 0" "x < 2 ^ 53 * unit_of 2045"
    using binade_zero unit_of_mono [of 0 2045] by auto
  define q where "q = x / unit_of 0"
  have q: "0 \<le> q" "q < 1 / 2"
    unfolding q_def using assms unit_of_pos [of 0]
    by (simp_all add: pos_divide_less_eq)
  have "\<lfloor>q\<rfloor> = 0"
    using q by (intro floor_unique) auto
  then have "round_half_even q = 0"
    using q(2) by (simp add: round_half_even_def)
  then have "round_half_even (x / unit_of 0) = 0"
    by (simp only: q_def)
  then show ?thesis
    using assms(1) b unit_of_pos [of 2045] by (simp add: round_double_def round_magnitude_def)
qed

lemma round_double_overflow:
  assumes "2 ^ 53 * unit_of 2045 \<le> x"
  shows "round_double x = PInf"
proof -
  have x0: "0 \<le> x"
    using assms unit_of_pos [of 2045] by (simp add: order_trans [rotated])
  have b: "binade x = 2045"
  proof (rule ccontr)
    assume "binade x \<noteq> 2045"
    then have lt: "binade x < 2045"
      using binade_le [of x] by simp
    then have "x < 2 ^ 53 * unit_of (binade x)"
      by (rule binade_below)
    moreover have "unit_of (binade x) \<le> unit_of 2045"
      using lt by (intro unit_of_mono) simp
    ultimately show False
      using assms by simp
  qed
  have "of_int (2 ^ 53) \<le> x / unit_of 2045"
    using assms unit_of_pos [of 2045] by (simp add: pos_le_divide_eq)
  then have "round_half_even (of_int (2 ^ 53)) \<le> round_half_even (x / unit_of 2045)"
    by (rule round_half_even_mono)
  then have "2 ^ 53 \<le> round_half_even (x / unit_of 2045)"
    by (simp only: round_half_even_int)
  then have "(2 ^ 53 :: rat) \<le> of_int (round_half_even (x / unit_of 2045))"
    by (metis of_int_le_iff of_int_numeral of_int_power)
  then have "2 ^ 53 * unit_of 2045 \<le> round_magnitude x"
    using unit_of_pos [of 2045] by (simp add: round_magnitude_def b mult_right_mono)
  then show ?thesis
    using x0 by (simp add: round_double_def)
qed

lemma unit_of_1074: "unit_of 1074 = 1"
  by (simp only: unit_of_def) simp

lemma unit_of_1075: "unit_of 1075 = 2"
  using unit_of_add [of 1074 1] by (simp add: unit_of_1074)

lemma round_double_tie: "round_double (2 ^ 53 + 1) = Fin (2 ^ 53)"
proof -
  define x :: rat where "x = 2 ^ 53 + 1"
  have "\<not> 1075 < binade x"
  proof
    assume "1075 < binade x"
    then have "2 ^ 53 * unit_of 1075 \<le> x"
      by (rule binade_above)
    then show False
      by (simp add: unit_of_1075 x_def)
  qed
  moreover have "\<not> binade x < 1075"
  proof
    assume lt: "binade x < 1075"
    then have "x < 2 ^ 53 * unit_of (binade x)"
      by (intro binade_below) simp
    moreover have "unit_of (binade x) \<le> unit_of 1074"
      using lt by (intro unit_of_mono) simp
    ultimately show False
      by (simp add: unit_of_1074 x_def)
  qed
  ultimately have b: "binade x = 1075"
    by simp
  have "x / 2 = of_int (2 ^ 52) + 1 / 2"
    by (simp add: x_def)
  then have "\<lfloor>x / 2\<rfloor> = 2 ^ 52" "x / 2 - of_int \<lfloor>x / 2\<rfloor> = 1 / 2"
    by (simp_all add: floor_eq_iff)
  then have "round_half_even (x / 2) = 2 ^ 52"
    by (simp add: round_half_even_def)
  then have "round_magnitude x = 2 ^ 53"
    by (simp add: round_magnitude_def b unit_of_1075)
  moreover have "(2 ^ 53 :: rat) < 2 ^ 53 * unit_of 2045"
    using unit_of_mono [of 1075 2045] by (simp add: unit_of_1075)
  ultimately show ?thesis
    by (simp add: round_double_def x_def [symmetric]) (simp add: x_def)
qed

section \<open>The program over rounded numbers\<close>

text \<open>With nothing rounded, the rounded program is the exact one.\<close>

lemma radd_exact: "radd Fin = jadd"
proof (intro ext)
  fix x y
  show "radd Fin x y = jadd x y"
    by (cases x; cases y) simp_all
qed

lemma rsub_exact: "rsub Fin = jsub"
  by (intro ext) (simp add: rsub_def jsub_def radd_exact)

lemma rmul_exact: "rmul Fin = jmul"
proof (intro ext)
  fix x y
  show "rmul Fin x y = jmul x y"
    by (cases x; cases y) simp_all
qed

lemma rdiv_exact: "rdiv Fin = jdiv"
proof (intro ext)
  fix x y
  show "rdiv Fin x y = jdiv x y"
    by (cases x; cases y) simp_all
qed

lemma take_token_rounded_exact: "take_token_rounded Fin = take_token"
  unfolding take_token_rounded_def take_token_def rsub_exact
  by (rule refl)

lemma fill_rounded_exact: "fill_rounded Fin = fill"
  unfolding fill_rounded_def fill_def rsub_exact radd_exact
  by (rule refl)

lemma fill_amount_rounded_exact: "fill_amount_rounded Fin = fill_amount"
  unfolding fill_amount_rounded_def fill_amount_def rsub_exact rdiv_exact rmul_exact
  by (rule refl)

lemma should_block_rounded_exact: "should_block_rounded Fin = should_block"
  unfolding should_block_rounded_def should_block_def rsub_exact rdiv_exact
    take_token_rounded_exact
  by (rule refl)

lemma fetch_with_rounded_exact: "fetch_with_rounded Fin = fetch_with"
  unfolding fetch_with_rounded_def fetch_with_def take_token_rounded_exact fill_rounded_exact
    fill_amount_rounded_exact should_block_rounded_exact
  by (rule refl)

lemma fetch_seq_rounded_exact: "fetch_seq_rounded Fin rs c = fetch_seq rs c"
  by (induction rs arbitrary: c) (auto simp: fetch_with_rounded_exact)

text \<open>The two properties of the rounding, at the numbers the proofs meet.\<close>

lemma int_le_pow53: "(n :: int) \<le> 2 ^ 53 \<longleftrightarrow> (of_int n :: rat) \<le> 2 ^ 53"
  by (metis of_int_le_iff of_int_numeral of_int_power)

lemma representable_int: "\<bar>n\<bar> \<le> 2 ^ 53 \<Longrightarrow> representable (of_int n)"
  unfolding representable_def
  by (rule exI [of _ n], rule exI [of _ 0], rule exI [of _ 0]) simp

lemma representable_pow: "a \<le> 970 \<Longrightarrow> representable (2 ^ a)"
  unfolding representable_def
  by (rule exI [of _ 1], rule exI [of _ a], rule exI [of _ 0]) simp




lemma rounded_int:
  "rounds_like_double R \<Longrightarrow> \<bar>n\<bar> \<le> 2 ^ 53 \<Longrightarrow> R (of_int n) = Fin (of_int n)"
  by (simp add: rounds_like_double_def representable_int)

lemma rounded_mono: "rounds_like_double R \<Longrightarrow> x \<le> y \<Longrightarrow> jle (R x) (R y)"
  by (simp add: rounds_like_double_def)

lemma rounded_exact: "rounds_like_double R \<Longrightarrow> representable x \<Longrightarrow> R x = Fin x"
  by (simp add: rounds_like_double_def)

lemma rounded_between:
  assumes "rounds_like_double R" "representable lo" "representable hi" "lo \<le> x" "x \<le> hi"
  shows "\<exists>y. R x = Fin y \<and> lo \<le> y \<and> y \<le> hi"
proof -
  have "jle (R lo) (R x)" "jle (R x) (R hi)"
    using assms rounded_mono by blast+
  moreover have "R lo = Fin lo" "R hi = Fin hi"
    using assms rounded_exact by blast+
  ultimately show ?thesis
    by (cases "R x") auto
qed

lemma rounded_nonneg:
  assumes "rounds_like_double R" "0 \<le> x"
  shows "R x = PInf \<or> (\<exists>y. R x = Fin y \<and> 0 \<le> y)"
proof -
  have "representable 0"
    using representable_int [of 0] by simp
  then have "R 0 = Fin 0"
    using assms(1) rounded_exact by blast
  moreover have "jle (R 0) (R x)"
    using assms rounded_mono by blast
  ultimately show ?thesis
    by (cases "R x") auto
qed


text \<open>The doubles that the examples meet.\<close>

lemma round_double_of_int: "\<bar>n\<bar> \<le> 2 ^ 53 \<Longrightarrow> round_double (of_int n) = Fin (of_int n)"
  by (simp add: round_double_exact representable_int)


lemma round_double_neg_numeral:
  "(numeral w :: int) \<le> 2 ^ 53 \<Longrightarrow> round_double (- numeral w) = Fin (- numeral w)"
  using round_double_of_int [of "- numeral w"] by simp


section \<open>The two scenarios in double arithmetic\<close>

text \<open>
  The two scenarios come out the same over rounded numbers, under every rounding that keeps
  the order and leaves a double as it is: the numbers they meet are whole and small, and the
  quotients by 1000 stay on their side of the next whole number.
\<close>

lemma rounded_whole:
  assumes "rounds_like_double R" "x \<in> \<int>" "\<bar>x\<bar> \<le> 2 ^ 53"
  shows "R x = Fin x"
proof -
  from assms(2) obtain n :: int where n: "x = of_int n"
    by (rule Ints_cases)
  have "\<bar>n\<bar> \<le> 2 ^ 53"
    using assms(3) unfolding n by (metis of_int_abs of_int_le_iff of_int_numeral of_int_power)
  then show ?thesis
    unfolding n using assms(1) by (rule rounded_int [rotated])
qed

lemma same_time_step_rounded:
  assumes R: "rounds_like_double R"
    and cfg: "requests cfg = Some (Fin m)" "per_seconds cfg = Some (Fin p)"
    and p: "1 \<le> p" and w: "m \<in> \<int>" "k \<in> \<int>" and k: "0 \<le> k" "k \<le> m" "m \<le> 2 ^ 53"
  shows "fetch_with_rounded R (Fin t) cfg
      \<lparr> storage = st, last_ms = Fin t,
        bucket = \<lparr> max_size = Fin m', tokens = Fin k, active = True \<rparr> \<rparr> =
    (if 0 < k then
      (\<lparr> body = [], status = 200 \<rparr>,
       \<lparr> storage = \<lparr> stored_last = Some (Fin t),
           stored_tokens = Some \<lparr> max_size = Fin m, tokens = Fin (k - 1), active = True \<rparr> \<rparr>,
         last_ms = Fin t,
         bucket = \<lparr> max_size = Fin m, tokens = Fin (k - 1), active = True \<rparr> \<rparr>)
     else
      (\<lparr> body = [], status = 429 \<rparr>,
       \<lparr> storage = \<lparr> stored_last = Some (Fin t),
           stored_tokens = Some \<lparr> max_size = Fin m, tokens = Fin k, active = True \<rparr> \<rparr>,
         last_ms = Fin t,
         bucket = \<lparr> max_size = Fin m, tokens = Fin k, active = True \<rparr> \<rparr>))"
proof -
  have rep: "representable 0" "representable (2 ^ 53)"
    using representable_int [of 0] representable_pow [of 53] by simp_all
  have z: "R 0 = Fin 0"
    using rounded_exact [OF R rep(1)] .
  have "0 \<le> m / p" "m / p \<le> 2 ^ 53"
  proof -
    show "0 \<le> m / p"
      using k p by simp
    have "m / p \<le> m / 1"
      using k p by (intro divide_left_mono) simp_all
    then show "m / p \<le> 2 ^ 53"
      using k(3) by simp
  qed
  from rounded_between [OF R rep this] obtain y where y: "R (m / p) = Fin y"
    by auto
  have mk: "R (m - k) = Fin (m - k)"
    using w k by (intro rounded_whole [OF R]) simp_all
  have kk: "R k = Fin k"
    using w k by (intro rounded_whole [OF R]) simp_all
  have k1: "0 < k \<Longrightarrow> R (k - 1) = Fin (k - 1)"
    using w k by (intro rounded_whole [OF R]) simp_all
  show ?thesis
    using cfg p k z y mk kk k1
    by (auto simp: fetch_with_rounded_def set_size_def is_active_def fill_amount_rounded_def
        should_block_rounded_def take_token_rounded_def fill_rounded_def respond_def
        persist_def rsub_def jmin_def Let_def min_def)
qed


lemma blocking_first_rounded:
  assumes R: "rounds_like_double R" and t: "10000 \<le> t" "t \<le> 2 ^ 53"
  shows "fetch_with_rounded R (Fin t) blocking_10_per_10 (Counter_new empty_storage) =
    (\<lparr> body = [], status = 200 \<rparr>,
     \<lparr> storage = \<lparr> stored_last = Some (Fin t),
           stored_tokens = Some \<lparr> max_size = Fin 10, tokens = Fin 9, active = True \<rparr> \<rparr>,
       last_ms = Fin t,
       bucket = \<lparr> max_size = Fin 10, tokens = Fin 9, active = True \<rparr> \<rparr>)"
proof -
  have rep: "representable 10000" "representable (2 ^ 53)" "representable 10"
    using representable_int [of 10000] representable_pow [of 53] representable_int [of 10]
    by simp_all
  from rounded_between [OF R rep(1,2) t] obtain u where
    u: "R t = Fin u" "10000 \<le> u" "u \<le> 2 ^ 53"
    by auto
  have "10 \<le> u / 1000" "u / 1000 \<le> 2 ^ 53"
    using u(2,3) by simp_all
  from rounded_between [OF R rep(3,2) this] obtain v where v: "R (u / 1000) = Fin v" "10 \<le> v"
    by auto
  have "\<not> \<lfloor>v\<rfloor> < 10"
    using v(2) by (simp add: le_floor_iff)
  then have nb: "\<not> (of_int \<lfloor>v\<rfloor> :: rat) < 10"
    by (metis of_int_less_iff of_int_numeral)
  have n: "R 10 = Fin 10" "R 9 = Fin 9"
    using rounded_int [OF R, of 10] rounded_int [OF R, of 9] by simp_all
  show ?thesis
    using u(1) v(1) nb n
    by (simp add: init_state fetch_with_rounded_def blocking_10_per_10_def set_size_def
        is_active_def should_block_rounded_def take_token_rounded_def fill_rounded_def
        respond_def persist_def rsub_def jmin_def Let_def)
qed

lemma hard_blocking_in_doubles:
  assumes R: "rounds_like_double R" and t: "10000 \<le> t" "t \<le> 2 ^ 53"
  shows "fst (fetch_seq_rounded R (replicate 11 (Fin t, blocking_10_per_10))
            (Counter_new empty_storage)) =
    replicate 10 200 @ [429]"
proof -
  have cfg: "requests blocking_10_per_10 = Some (Fin 10)"
    "per_seconds blocking_10_per_10 = Some (Fin 10)"
    by (simp_all add: blocking_10_per_10_def)
  have r: "replicate 11 x = [x, x, x, x, x, x, x, x, x, x, x]" for x :: "jsnum \<times> Configuration"
    by (simp add: numeral_eq_Suc)
  have r': "replicate 10 x = [x, x, x, x, x, x, x, x, x, x]" for x :: nat
    by (simp add: numeral_eq_Suc)
  show ?thesis
    unfolding r r'
    by (simp add: blocking_first_rounded [OF R t] same_time_step_rounded [OF R cfg])
qed

lemma throttling_first_rounded:
  assumes R: "rounds_like_double R"
  shows "fetch_with_rounded R (Fin t) throttling_20_per_10 (Counter_new empty_storage) =
    (\<lparr> body = [], status = 200 \<rparr>,
     \<lparr> storage = \<lparr> stored_last = Some (Fin t),
           stored_tokens = Some \<lparr> max_size = Fin 20, tokens = Fin 19, active = True \<rparr> \<rparr>,
       last_ms = Fin t,
       bucket = \<lparr> max_size = Fin 20, tokens = Fin 19, active = True \<rparr> \<rparr>)"
proof -
  have n: "R 20 = Fin 20" "R 19 = Fin 19"
    using rounded_int [OF R, of 20] rounded_int [OF R, of 19] by simp_all
  show ?thesis
    using n
    by (simp add: init_state fetch_with_rounded_def throttling_20_per_10_def set_size_def
        is_active_def should_block_rounded_def take_token_rounded_def fill_rounded_def
        respond_def persist_def rsub_def jmin_def Let_def Blocking_def Throttling_def)
qed

lemma throttling_after_one_second_rounded:
  assumes R: "rounds_like_double R" and d: "1000 \<le> d" "d \<le> 1999"
  shows "fetch_with_rounded R (Fin (t + d)) throttling_20_per_10
      \<lparr> storage = st, last_ms = Fin t,
        bucket = \<lparr> max_size = Fin 20, tokens = Fin 0, active = True \<rparr> \<rparr> =
    (\<lparr> body = [], status = 200 \<rparr>,
     \<lparr> storage = \<lparr> stored_last = Some (Fin (t + d)),
           stored_tokens = Some \<lparr> max_size = Fin 20, tokens = Fin 1, active = True \<rparr> \<rparr>,
       last_ms = Fin (t + d),
       bucket = \<lparr> max_size = Fin 20, tokens = Fin 1, active = True \<rparr> \<rparr>)"
proof -
  have rep: "representable 1000" "representable 1999" "representable 1"
    "representable (2047 / 1024)"
  proof -
    show "representable 1000" "representable 1999" "representable 1"
      using representable_int [of 1000] representable_int [of 1999] representable_int [of 1]
      by simp_all
    show "representable (2047 / 1024)"
      unfolding representable_def
      by (rule exI [of _ 2047], rule exI [of _ 0], rule exI [of _ 10]) simp
  qed
  from rounded_between [OF R rep(1,2) d] obtain u where
    u: "R d = Fin u" "1000 \<le> u" "u \<le> 1999"
    by auto
  have "1 \<le> u / 1000" "u / 1000 \<le> 2047 / 1024"
    using u(2,3) by simp_all
  from rounded_between [OF R rep(3,4) this] obtain v where
    v: "R (u / 1000) = Fin v" "1 \<le> v" "v \<le> 2047 / 1024"
    by auto
  have fl: "\<lfloor>v\<rfloor> = 1"
    using v(2,3) by (intro floor_unique) auto
  have n: "R 20 = Fin 20" "R 2 = Fin 2" "R 1 = Fin 1"
    using rounded_int [OF R, of 20] rounded_int [OF R, of 2] rounded_int [OF R, of 1]
    by simp_all
  show ?thesis
    using u(1) v(1) fl n
    by (simp add: fetch_with_rounded_def throttling_20_per_10_def set_size_def is_active_def
        fill_amount_rounded_def should_block_rounded_def take_token_rounded_def
        fill_rounded_def respond_def persist_def rsub_def jmin_def Let_def Blocking_def
        Throttling_def)
qed

lemma graduated_throttling_in_doubles:
  assumes R: "rounds_like_double R" and d: "1000 \<le> d" "d \<le> 1999"
  shows "fst (fetch_seq_rounded R
            (replicate 20 (Fin t, throttling_20_per_10) @
             replicate 3 (Fin (t + d), throttling_20_per_10))
            (Counter_new empty_storage)) =
    replicate 20 200 @ [200, 200, 429]"
proof -
  have cfg: "requests throttling_20_per_10 = Some (Fin 20)"
    "per_seconds throttling_20_per_10 = Some (Fin 10)"
    by (simp_all add: throttling_20_per_10_def)
  show ?thesis
    by (simp add: numeral_eq_Suc throttling_first_rounded [OF R]
        throttling_after_one_second_rounded [OF R d] same_time_step_rounded [OF R cfg])
qed

section \<open>The capacity bound\<close>

lemma amount_rounded_whole:
  assumes R: "rounds_like_double R"
    and l: "last_ms c = Fin l'" "0 \<le> l'" "l' \<le> t" "t \<le> 2 ^ 53"
    and r: "1 \<le> r" "r \<le> 2 ^ 53" "of_int \<lfloor>r\<rfloor> = r"
    and ps: "case ps of None \<Rightarrow> True | Some (Fin p) \<Rightarrow> 1 \<le> p | Some _ \<Rightarrow> False"
  shows "(if \<not> act then Fin r else fill_amount_rounded R (Fin r) ps (Fin t) c) = PInf \<or>
         (\<exists>a::int. 0 \<le> a \<and>
           (if \<not> act then Fin r else fill_amount_rounded R (Fin r) ps (Fin t) c) =
             Fin (of_int a))"
proof (cases act)
  case False
  have "0 \<le> \<lfloor>r\<rfloor>"
    using r(1) by simp
  then show ?thesis
    using False r(3) by auto
next
  case True
  show ?thesis
  proof (cases ps)
    case None
    then show ?thesis
      using True by (auto simp: fill_amount_rounded_def intro: exI [of _ 0])
  next
    case (Some x)
    then obtain p where p: "ps = Some (Fin p)" "1 \<le> p"
      using ps by (cases x) auto
    have rep: "representable 0" "representable (2 ^ 53)"
      using representable_int [of 0] representable_pow [of 53] by simp_all
    have "0 \<le> t - l'" "t - l' \<le> 2 ^ 53"
      using l by simp_all
    from rounded_between [OF R rep this]
    obtain u where u: "R (t - l') = Fin u" "0 \<le> u" "u \<le> 2 ^ 53"
      by auto
    have "0 \<le> u / 1000" "u / 1000 \<le> 2 ^ 53"
      using u(2,3) by simp_all
    from rounded_between [OF R rep this]
    obtain v where v: "R (u / 1000) = Fin v" "0 \<le> v"
      by auto
    have passed: "jfloor (rdiv R (rsub R (Fin t) (last_ms c)) (Fin 1000)) = Fin (of_int \<lfloor>v\<rfloor>)"
      using l(1) u(1) v(1) by (simp add: rsub_def)
    have "0 \<le> r / p" "r / p \<le> 2 ^ 53"
    proof -
      show "0 \<le> r / p"
        using r(1) p(2) by simp
      have "r / p \<le> r / 1"
        using r(1) p(2) by (intro divide_left_mono) simp_all
      then show "r / p \<le> 2 ^ 53"
        using r(2) by simp
    qed
    from rounded_between [OF R rep this]
    obtain y where y: "R (r / p) = Fin y" "0 \<le> y"
      by auto
    have tpsf: "rdiv R (Fin r) (Fin p) = Fin y"
      using p(2) y(1) by simp
    have "0 \<le> y * of_int \<lfloor>v\<rfloor>"
      using y(2) v(2) by simp
    from rounded_nonneg [OF R this]
    have "jfloor (R (y * of_int \<lfloor>v\<rfloor>)) = PInf \<or>
          (\<exists>a::int. 0 \<le> a \<and> jfloor (R (y * of_int \<lfloor>v\<rfloor>)) = Fin (of_int a))"
      by auto
    then show ?thesis
      using True p(1) tpsf passed by (simp add: fill_amount_rounded_def)
  qed
qed

lemma fill_rounded_whole:
  assumes R: "rounds_like_double R"
    and b: "tokens b = Fin (of_int k)" "max_size b = Fin (of_int j)"
      "0 \<le> k" "k \<le> 2 ^ 53" "1 \<le> j" "j \<le> 2 ^ 53"
    and amt: "amt = PInf \<or> (\<exists>a::int. 0 \<le> a \<and> amt = Fin (of_int a))"
  shows "\<exists>k3. tokens (fill_rounded R amt b) = Fin (of_int k3) \<and> 0 \<le> k3 \<and> k3 \<le> j"
proof -
  have "\<bar>j - k\<bar> \<le> 2 ^ 53"
    using b(3-6) by simp
  then have sub: "rsub R (Fin (of_int j)) (Fin (of_int k)) = Fin (of_int (j - k))"
    using rounded_int [OF R, of "j - k"] by (simp add: rsub_def)
  obtain x :: int where x: "jmin (Fin (of_int (j - k))) amt = Fin (of_int x)"
    "x = j - k \<or> (0 \<le> x \<and> x \<le> j - k)"
  proof -
    from amt show ?thesis
    proof
      assume "amt = PInf"
      then have "jmin (Fin (of_int (j - k))) amt = Fin (of_int (j - k))"
        by (simp add: jmin_def)
      then show ?thesis
        using that by blast
    next
      assume "\<exists>a::int. 0 \<le> a \<and> amt = Fin (of_int a)"
      then obtain a :: int where a: "0 \<le> a" "amt = Fin (of_int a)"
        by blast
      have "jmin (Fin (of_int (j - k))) amt = Fin (of_int (min (j - k) a))"
        using a(2) by (simp add: jmin_def min_def)
      moreover have "min (j - k) a = j - k \<or> (0 \<le> min (j - k) a \<and> min (j - k) a \<le> j - k)"
        using a(1) by (auto simp: min_def)
      ultimately show ?thesis
        using that by blast
    qed
  qed
  have k3: "0 \<le> k + x" "k + x \<le> j"
    using x(2) b(3,5) by auto
  then have "\<bar>k + x\<bar> \<le> 2 ^ 53"
    using b(6) by simp
  then have "R (of_int k + of_int x) = Fin (of_int (k + x))"
    using rounded_int [OF R, of "k + x"] by simp
  then have "tokens (fill_rounded R amt b) = Fin (of_int (k + x))"
    using b(1,2) sub x(1) by (simp add: fill_rounded_def)
  then show ?thesis
    using k3 by blast
qed

lemma take_token_rounded_whole:
  assumes R: "rounds_like_double R" and b: "tokens b = Fin (of_int k)" "0 \<le> k" "k \<le> 2 ^ 53"
  shows "take_token_rounded R pre b =
     (if k \<le> 0 then (False, b\<lparr> active := True \<rparr>)
      else if pre then (True, b\<lparr> active := True \<rparr>)
      else (True, b\<lparr> active := True, tokens := Fin (of_int (k - 1)) \<rparr>))"
proof -
  have "\<bar>k - 1\<bar> \<le> 2 ^ 53"
    using b(2,3) by simp
  then have "R (of_int k - 1) = Fin (of_int (k - 1))"
    using rounded_int [OF R, of "k - 1"] by simp
  then show ?thesis
    using b(1) by (simp add: take_token_rounded_def rsub_def)
qed

lemma fetch_with_rounded_bounded:
  assumes R: "rounds_like_double R" and inv: "bounded_at l c" and wq: "quota_in_range cfg"
    and le: "l \<le> t" "t \<le> 2 ^ 53"
  shows "bounded_at t (snd (fetch_with_rounded R (Fin t) cfg c))"
proof (cases "requests cfg")
  case None
  then show ?thesis
    using inv le
    by (auto simp: bounded_at_def fetch_with_rounded_def respond_def persist_def)
next
  case (Some x)
  then obtain r where r: "requests cfg = Some (Fin r)" "1 \<le> r" "r \<le> 2 ^ 53"
    "of_int \<lfloor>r\<rfloor> = r"
    using wq by (cases x) (auto simp: quota_in_range_def)
  from inv obtain l' k m where s:
    "last_ms c = Fin l'" "0 \<le> l'" "l' \<le> l" "tokens (bucket c) = Fin (of_int k)" "0 \<le> k"
    "max_size (bucket c) = Fin (of_int m)" "k \<le> m" "m \<le> 2 ^ 53"
    by (auto simp: bounded_at_def)
  have k53: "k \<le> 2 ^ 53"
    using s(7,8) by simp
  define j where "j = \<lfloor>r\<rfloor>"
  have rj: "r = of_int j"
    unfolding j_def by (rule r(4) [symmetric])
  have j: "1 \<le> j" "j \<le> 2 ^ 53"
    using r(2,3) rj by (simp_all add: int_le_pow53)
  define c1 where "c1 = c\<lparr> bucket := set_size (Fin r) (bucket c) \<rparr>"
  have c1: "last_ms c1 = Fin l'" "tokens (bucket c1) = Fin (of_int k)"
    "max_size (bucket c1) = Fin (of_int j)"
    using s rj by (simp_all add: c1_def set_size_def)
  define amt where "amt = (if \<not> is_active (bucket c1) then Fin r
      else fill_amount_rounded R (Fin r) (per_seconds cfg) (Fin t) c1)"
  have ps: "case per_seconds cfg of None \<Rightarrow> True | Some (Fin p) \<Rightarrow> 1 \<le> p | Some _ \<Rightarrow> False"
    using wq by (simp add: quota_in_range_def)
  have lt: "l' \<le> t"
    using s(3) le(1) by simp
  have amt: "amt = PInf \<or> (\<exists>a::int. 0 \<le> a \<and> amt = Fin (of_int a))"
    unfolding amt_def
    using amount_rounded_whole [OF R c1(1) s(2) lt le(2) r(2,3,4) ps] by blast
  obtain blocked c2 where sb: "should_block_rounded R (Fin t) cfg c1 = (blocked, c2)"
    by (cases "should_block_rounded R (Fin t) cfg c1")
  have c2: "last_ms c2 = Fin l'" "tokens (bucket c2) = Fin (of_int k)"
    "max_size (bucket c2) = Fin (of_int j)" "blocked \<longrightarrow> k \<le> 0"
    using sb c1 take_token_rounded_whole [OF R c1(2) s(5) k53, of True]
    by (auto simp: should_block_rounded_def Let_def split: if_splits option.splits)
  define c3 where
    "c3 = (if \<not> blocked then c2\<lparr> bucket := fill_rounded R amt (bucket c2) \<rparr> else c2)"
  have "\<exists>k3. tokens (bucket c3) = Fin (of_int k3) \<and> 0 \<le> k3 \<and> k3 \<le> j"
  proof (cases blocked)
    case True
    then show ?thesis
      using c2 s(5) j(1) by (auto simp: c3_def)
  next
    case False
    then show ?thesis
      using fill_rounded_whole [OF R c2(2,3) s(5) k53 j amt] by (simp add: c3_def)
  qed
  then obtain k3 where k3: "tokens (bucket c3) = Fin (of_int k3)" "0 \<le> k3" "k3 \<le> j"
    by blast
  have c3: "last_ms c3 = Fin l'" "max_size (bucket c3) = Fin (of_int j)"
    using c2 by (auto simp: c3_def fill_rounded_def)
  have k353: "k3 \<le> 2 ^ 53"
    using k3(3) j(2) by simp
  have fw: "fetch_with_rounded R (Fin t) cfg c =
      (let (got, b) = take_token_rounded R False (bucket c3)
       in respond got (Fin t) (c3\<lparr> bucket := b \<rparr>))"
    using r(1) sb
    by (simp add: fetch_with_rounded_def c1_def [symmetric] amt_def [symmetric] c3_def Let_def)
  have t0: "0 \<le> t"
    using s(2) lt by simp
  show ?thesis
  proof (cases "k3 \<le> 0")
    case True
    then show ?thesis
      using c3 k3 j s(2) lt
      by (simp add: fw take_token_rounded_whole [OF R k3(1,2) k353] respond_def persist_def
          bounded_at_def)
  next
    case False
    then have "0 \<le> k3 - 1" "k3 - 1 \<le> j"
      using k3 by auto
    then show ?thesis
      using c3 False j(2) t0
      apply (simp add: fw take_token_rounded_whole [OF R k3(1,2) k353] respond_def persist_def
          bounded_at_def)
      apply (rule exI [of _ "k3 - 1"])
      apply simp
      done
  qed
qed

lemma fetch_seq_rounded_bounded:
  "rounds_like_double R \<Longrightarrow> bounded_at l c \<Longrightarrow> \<forall>(t, cfg) \<in> set rs. quota_in_range cfg \<Longrightarrow>
   times_in_range l rs \<Longrightarrow> \<exists>l'. bounded_at l' (snd (fetch_seq_rounded R rs c))"
proof (induction rs arbitrary: l c)
  case Nil
  then show ?case
    by auto
next
  case (Cons x rs)
  obtain time cfg where x: "x = (time, cfg)"
    by (cases x)
  with Cons.prems(4) obtain t where t: "time = Fin t" "l \<le> t" "t \<le> 2 ^ 53"
    "times_in_range t rs"
    by (cases time) auto
  have "bounded_at t (snd (fetch_with_rounded R (Fin t) cfg c))"
    using fetch_with_rounded_bounded [OF Cons.prems(1,2) _ t(2,3)] Cons.prems(3) x by auto
  from Cons.IH [OF Cons.prems(1) this _ t(4)] Cons.prems(3)
  show ?case
    by (auto simp: x t(1) split: prod.splits)
qed

lemma bounded_at_capacity: "bounded_at l c \<Longrightarrow> capacity_bound (bucket c)"
  by (auto simp: bounded_at_def capacity_bound_def)

text \<open>
  Claim C6, as stated, fails: a configuration may carry a negative \<open>requests\<close>, and one
  request under \<^verbatim>\<open>Configuration(-5)\<close> fills the fresh bucket with -5 tokens.
\<close>

theorem capacity_bound_counterexample:
  "\<not> capacity_bound
       (bucket (snd (fetch_seq_rounded round_double
          [(Fin 1700000000000,
            Configuration_new StringToNumber_digits (JNum (Fin (- 5))) JNull JUndefined)]
          (Counter_new empty_storage))))"
  by (simp add: capacity_bound_def Configuration_new_def or_null_def default_arg_def
      DEFAULT_BEHAVIOR_def init_state fetch_with_rounded_def set_size_def is_active_def
      should_block_rounded_def take_token_rounded_def fill_rounded_def respond_def persist_def
      rsub_def jmin_def Let_def round_double_neg_numeral)

text \<open>
  Claim C6, amended. In double arithmetic (under every rounding that keeps the order and
  leaves a double as it is, as the rounding of doubles does), in every state reached from the
  initial state by a sequence of requests whose configurations each have a \<open>requests\<close> that
  is null or a whole number from 1 to \<open>2^53\<close> and a \<open>per_seconds\<close> that is null or at
  least 1, at times from 0 to \<open>2^53\<close> that do not decrease, the bucket satisfies \<open>0 \<le> tokens
  \<le> max\<close>.
\<close>

theorem capacity_bound_in_range:
  assumes "rounds_like_double R"
    and "\<forall>(t, cfg) \<in> set rs. quota_in_range cfg" and "times_in_range 0 rs"
  shows "capacity_bound (bucket (snd (fetch_seq_rounded R rs (Counter_new empty_storage))))"
proof -
  have "bounded_at 0 (Counter_new empty_storage)"
    by (simp add: bounded_at_def init_state)
  from fetch_seq_rounded_bounded [OF assms(1) this assms(2,3)]
  show ?thesis
    by (auto dest: bounded_at_capacity)
qed

theorem capacity_bound_in_range_witness:
  "rounds_like_double round_double \<and>
   quota_in_range blocking_10_per_10 \<and> quota_in_range throttling_20_per_10 \<and>
   quota_in_range unlimited \<and>
   times_in_range 0 [(Fin 1700000000000, blocking_10_per_10),
        (Fin 1700000001000, throttling_20_per_10), (Fin 1700000001000, unlimited)] \<and>
   capacity_bound (bucket (snd (fetch_seq_rounded round_double
        [(Fin 1700000000000, blocking_10_per_10), (Fin 1700000001000, throttling_20_per_10),
         (Fin 1700000001000, unlimited)]
        (Counter_new empty_storage))))"
proof -
  have h1: "\<forall>(t, cfg) \<in> set [(Fin 1700000000000, blocking_10_per_10),
        (Fin 1700000001000, throttling_20_per_10), (Fin 1700000001000, unlimited)].
      quota_in_range cfg"
    by (simp add: quota_in_range_def blocking_10_per_10_def throttling_20_per_10_def
        unlimited_def)
  have h2: "times_in_range 0 [(Fin 1700000000000, blocking_10_per_10),
        (Fin 1700000001000, throttling_20_per_10), (Fin 1700000001000, unlimited)]"
    by simp
  show ?thesis
    using h1 h2 round_double_like capacity_bound_in_range [OF round_double_like h1 h2]
    by simp
qed

section \<open>A request before the last admitted one\<close>






end
